theory Spec2Isabelle
  imports Complex_Main "HOL-Library.AList"
begin

section \<open>JavaScript values\<close>

text \<open>
  A number of the runtime is a double: a finite value, which is a rational, or one of
  the three values that are not finite. Minus zero is not told apart from zero: the
  program cannot see the difference (both are falsy, both print as \<open>0\<close>).
\<close>

datatype number = Finite rat | NaN | Infinity | NegInfinity

text \<open>
  The values that travel through the program: parsed JSON bodies, record field
  dictionaries, lookup keys. Strings are character lists. \<open>JObj\<close> lists the own members
  of an object, each name once.
\<close>

datatype jsval =
    JUndefined
  | JNull
  | JBool bool
  | JNum number
  | JStr string
  | JArr "jsval list"
  | JObj "(string \<times> jsval) list"

text \<open>\<open>Boolean(v)\<close>, the test behind \<open>!v\<close>, \<open>v || d\<close> and \<open>filter(Boolean)\<close>.\<close>

fun truthy :: "jsval \<Rightarrow> bool" where
  "truthy JUndefined = False"
| "truthy JNull = False"
| "truthy (JBool b) = b"
| "truthy (JNum (Finite q)) = (q \<noteq> 0)"
| "truthy (JNum NaN) = False"
| "truthy (JNum Infinity) = True"
| "truthy (JNum NegInfinity) = True"
| "truthy (JStr s) = (s \<noteq> [])"
| "truthy (JArr xs) = True"
| "truthy (JObj kvs) = True"

text \<open>Decimal digits of a natural number, most significant first.\<close>

fun digits :: "nat \<Rightarrow> string" where
  "digits n =
     (if n < 10 then [''0123456789'' ! n]
      else digits (n div 10) @ [''0123456789'' ! (n mod 10)])"

declare digits.simps [simp del]

text \<open>How an integer-valued number prints in a template literal.\<close>

definition Number_toString :: "int \<Rightarrow> string" where
  "Number_toString n = (if n < 0 then ''-'' @ digits (nat (- n)) else digits (nat n))"

definition join :: "string \<Rightarrow> string list \<Rightarrow> string" where
  "join sep xs = (case xs of [] \<Rightarrow> [] | y # ys \<Rightarrow> y @ concat (map (\<lambda>z. sep @ z) ys))"

text \<open>
  The built-ins of the platform that the repository calls, or that the language applies
  for it, and whose results are not written out here, are parameters:
  \<open>encodeURIComponent\<close>; \<open>JSON.stringify\<close>; the text of a finite number that is not
  an integer of magnitude below \<open>2^53\<close> (a fraction, or an exponent form such as
  \<open>1e+21\<close>); and the comparison \<open>x > k\<close> for an operand \<open>x\<close> that is a string, an array or
  an object, which goes through the numeric coercion of the runtime and can throw a
  TypeError (\<open>None\<close>).
\<close>

record platform =
  encodeURIComponent :: "string \<Rightarrow> string"
  JSON_stringify :: "jsval \<Rightarrow> string"
  Number_text :: "rat \<Rightarrow> string"
  coerced_greater :: "jsval \<Rightarrow> int \<Rightarrow> bool option"

text \<open>\<open>String(n)\<close> for a number: an integer below \<open>2^53\<close> is written with its digits.\<close>

fun number_String :: "platform \<Rightarrow> number \<Rightarrow> string" where
  "number_String pf (Finite q) =
     (if of_int \<lfloor>q\<rfloor> = q \<and> \<bar>q\<bar> < 9007199254740992 then Number_toString \<lfloor>q\<rfloor>
      else Number_text pf q)"
| "number_String pf NaN = ''NaN''"
| "number_String pf Infinity = ''Infinity''"
| "number_String pf NegInfinity = ''-Infinity''"

text \<open>
  \<open>String(v)\<close>, also the conversion a template literal applies; \<open>None\<close> is the TypeError
  of the runtime for a value that has no string. An array is the join of its elements
  with commas, \<open>null\<close> and \<open>undefined\<close> giving nothing. An object is \<open>[object Object]\<close>
  through the \<open>toString\<close> it inherits; an own member \<open>toString\<close> of a parsed object is
  not a function, and then the conversion throws.
\<close>

fun js_String :: "platform \<Rightarrow> jsval \<Rightarrow> string option" where
  "js_String pf JUndefined = Some ''undefined''"
| "js_String pf JNull = Some ''null''"
| "js_String pf (JBool b) = Some (if b then ''true'' else ''false'')"
| "js_String pf (JNum n) = Some (number_String pf n)"
| "js_String pf (JStr s) = Some s"
| "js_String pf (JArr xs) =
     map_option (join '','')
       (those (map (\<lambda>x. if x = JNull \<or> x = JUndefined then Some [] else js_String pf x) xs))"
| "js_String pf (JObj kvs) =
     (if map_of kvs ''toString'' = None then Some ''[object Object]'' else None)"

section \<open>Failures, effects and the environment\<close>

text \<open>
  What a promise can reject with: an \<open>Error\<close> built by this program with its message,
  a \<open>TypeError\<close> of the runtime (reading a property of \<open>null\<close> or \<open>undefined\<close>,
  spreading a value that is not iterable), or a value \<open>Raised\<close> by the environment
  (a rejection of \<open>fetch\<close> or of \<open>res.json()\<close>), passed on as it is.
\<close>

datatype 'e failure = Error string | TypeError | Raised 'e

text \<open>The options object handed to \<open>fetch\<close>; \<open>{}\<close> is \<open>no_options\<close>.\<close>

record options =
  http_method :: "string option"
  headers :: "(string \<times> string) list"
  body :: "string option"

definition no_options :: options where
  "no_options = \<lparr>http_method = None, headers = [], body = None\<rparr>"

text \<open>
  The observable effects, in the order they happen: a network call \<open>fetch(url, options)\<close>,
  and an awaited timer with the delay it was asked for, in milliseconds.
\<close>

datatype event = Fetch string options | Sleep int

type_synonym trace = "event list"

text \<open>
  The response object as the program reads it: \<open>res.status\<close>, \<open>res.ok\<close>, and the
  outcomes of \<open>res.text()\<close> and \<open>res.json()\<close>, each of which resolves (\<open>Inr\<close>) or
  rejects (\<open>Inl\<close>).
\<close>

record 'e response =
  status :: int
  ok :: bool
  res_text :: "'e + string"
  res_json :: "'e + jsval"

text \<open>
  The network is a function of the history: it is asked with the trace that ends in the
  call being made, and answers with a response or rejects (a transport failure).
\<close>

type_synonym 'e network = "trace \<Rightarrow> 'e + 'e response"

definition calls :: "trace \<Rightarrow> nat" where
  "calls tr = length [e \<leftarrow> tr. case e of Fetch u opts \<Rightarrow> True | Sleep d \<Rightarrow> False]"

definition sleeps :: "trace \<Rightarrow> int list" where
  "sleeps tr = concat (map (\<lambda>e. case e of Fetch u opts \<Rightarrow> [] | Sleep d \<Rightarrow> [d]) tr)"

section \<open>http.mjs: requestJSON\<close>

text \<open>
  The source (\<open>src/unnamed/part_001\<close>, the module imported as \<open>./http.mjs\<close>):
  \<^verbatim>\<open>
  export async function requestJSON(url, options = {},
                                    { retries = 5, baseDelayMs = 400 } = {}) {
    for (let i = 0; i <= retries; i++) {
      const res = await fetch(url, options);
      if (res.status === 429 || res.status >= 500) {
        if (i === retries) {
          const text = await res.text().catch(() => "");
          throw new Error(`HTTP ${res.status} after ${retries} retries: ${text}`);
        }
        await sleep(baseDelayMs * 2 ** i);
        continue;
      }
      if (!res.ok) {
        const text = await res.text().catch(() => "");
        throw new Error(`HTTP ${res.status}: ${text}`);
      }
      return res.json();
    }
  }
  \<close>
  The loop is a recursion on the attempt index \<open>i\<close>, which threads the trace. The retry
  count and the base delay are integers, the retry count of any sign; every awaited
  promise is taken to settle. \<open>sleep(ms)\<close> is the event \<open>Sleep ms\<close>: the delay the timer
  is asked for.
\<close>

text \<open>\<open>await res.text().catch(() => "")\<close>\<close>

definition text_or_empty :: "'e response \<Rightarrow> string" where
  "text_or_empty res = (case res_text res of Inl e \<Rightarrow> [] | Inr t \<Rightarrow> t)"

text \<open>
  How the body of the \<open>for\<close> loop is left: by \<open>return\<close>, by \<open>throw\<close>, or by the loop
  condition \<open>i <= retries\<close> turning false.
\<close>

datatype 'e completion = Returned jsval | Thrown "'e failure" | LoopExit

function requestJSON_loop ::
  "'e network \<Rightarrow> string \<Rightarrow> options \<Rightarrow> int \<Rightarrow> int \<Rightarrow> nat \<Rightarrow> trace \<Rightarrow> 'e completion \<times> trace"
where
  "requestJSON_loop fetch url opts retries baseDelayMs i tr =
     (if int i \<le> retries then
        (case fetch (tr @ [Fetch url opts]) of
           Inl e \<Rightarrow> (Thrown (Raised e), tr @ [Fetch url opts])
         | Inr res \<Rightarrow>
             if status res = 429 \<or> status res \<ge> 500 then
               if int i = retries then
                 (Thrown (Error (''HTTP '' @ Number_toString (status res) @ '' after ''
                    @ Number_toString retries @ '' retries: '' @ text_or_empty res)),
                  tr @ [Fetch url opts])
               else
                 requestJSON_loop fetch url opts retries baseDelayMs (Suc i)
                   (tr @ [Fetch url opts, Sleep (baseDelayMs * 2 ^ i)])
             else if \<not> ok res then
               (Thrown (Error (''HTTP '' @ Number_toString (status res) @ '': ''
                  @ text_or_empty res)),
                tr @ [Fetch url opts])
             else
               (case res_json res of
                  Inl e \<Rightarrow> (Thrown (Raised e), tr @ [Fetch url opts])
                | Inr v \<Rightarrow> (Returned v, tr @ [Fetch url opts])))
      else (LoopExit, tr))"
  by pat_completeness auto
termination
  by (relation "measure (\<lambda>(fetch, url, opts, retries, baseDelayMs, i, tr). nat (retries + 1 - int i))")
     auto

declare requestJSON_loop.simps [simp del]

text \<open>The third parameter \<open>{ retries = 5, baseDelayMs = 400 } = {}\<close>.\<close>

record retryConfig =
  retries :: "int option"
  baseDelayMs :: "int option"

definition retries_of :: "retryConfig option \<Rightarrow> int" where
  "retries_of rc = (case rc of None \<Rightarrow> 5 | Some c \<Rightarrow> (case retries c of None \<Rightarrow> 5 | Some r \<Rightarrow> r))"

definition baseDelayMs_of :: "retryConfig option \<Rightarrow> int" where
  "baseDelayMs_of rc =
     (case rc of None \<Rightarrow> 400 | Some c \<Rightarrow> (case baseDelayMs c of None \<Rightarrow> 400 | Some d \<Rightarrow> d))"

text \<open>The second parameter \<open>options = {}\<close>.\<close>

definition options_of :: "options option \<Rightarrow> options" where
  "options_of oo = (case oo of None \<Rightarrow> no_options | Some opts \<Rightarrow> opts)"

text \<open>
  The async function: a \<open>return\<close> resolves the promise, a \<open>throw\<close> rejects it, and
  falling out of the loop resolves it with \<open>undefined\<close>.
\<close>

definition requestJSON ::
  "'e network \<Rightarrow> string \<Rightarrow> options option \<Rightarrow> retryConfig option \<Rightarrow> trace
     \<Rightarrow> ('e failure + jsval) \<times> trace"
where
  "requestJSON fetch url oo rc tr =
     (case requestJSON_loop fetch url (options_of oo) (retries_of rc) (baseDelayMs_of rc) 0 tr of
        (Returned v, tr') \<Rightarrow> (Inr v, tr')
      | (Thrown e, tr') \<Rightarrow> (Inl e, tr')
      | (LoopExit, tr') \<Rightarrow> (Inr JUndefined, tr'))"


section \<open>config.mjs\<close>

text \<open>
  The configuration object. The base identifier, the token and the strict-duplicates
  flag come from the process environment (the strings are taken as they are written
  into a template literal); the limits are the constants of the source.
\<close>

record config =
  baseId :: string
  token :: string
  batchSize :: nat
  politeDelayMs :: int
  strictDuplicates :: bool

definition cfg :: "string \<Rightarrow> string \<Rightarrow> bool \<Rightarrow> config" where
  "cfg base tok strict =
     \<lparr>baseId = base, token = tok, batchSize = 10, politeDelayMs = 120,
      strictDuplicates = strict\<rparr>"

section \<open>airtableRepo.mjs\<close>

definition API :: "config \<Rightarrow> string" where
  "API c = ''https://api.airtable.com/v0/'' @ baseId c"

definition HEADERS :: "config \<Rightarrow> (string \<times> string) list" where
  "HEADERS c =
     [(''Authorization'', ''Bearer '' @ token c), (''Content-Type'', ''application/json'')]"

text \<open>\<open>Math.ceil(n / d)\<close> on lengths, for a positive \<open>d\<close>.\<close>

definition ceil_div :: "nat \<Rightarrow> nat \<Rightarrow> nat" where
  "ceil_div n d = (n + d - 1) div d"

text \<open>\<open>arr.slice(a, b)\<close> for indices \<open>0 \<le> a\<close> and \<open>0 \<le> b\<close>.\<close>

definition slice :: "'a list \<Rightarrow> nat \<Rightarrow> nat \<Rightarrow> 'a list" where
  "slice arr a b = take (b - a) (drop a arr)"

text \<open>
  \<open>chunk\<close>, for a positive chunk size (the callers pass \<open>batchSize\<close>, which is 10,
  and the literal 20).
\<close>

definition chunk :: "'a list \<Rightarrow> nat \<Rightarrow> 'a list list" where
  "chunk arr sz = map (\<lambda>i. slice arr (i * sz) ((i + 1) * sz)) [0..<ceil_div (length arr) sz]"

text \<open>
  \<open>s.replace(/"/g, '\\"')\<close>: a backslash goes before every double quote; and \<open>quote\<close>,
  which applies it to \<open>String(v)\<close>.
\<close>

definition replace_quotes :: "string \<Rightarrow> string" where
  "replace_quotes s = concat (map (\<lambda>ch. if ch = CHR 0x22 then [CHR 0x5C, CHR 0x22] else [ch]) s)"

definition quote :: "platform \<Rightarrow> jsval \<Rightarrow> string option" where
  "quote pf v = map_option replace_quotes (js_String pf v)"

text \<open>
  Reading a property, \<open>v[k]\<close> or \<open>v.k\<close>. On \<open>null\<close> and \<open>undefined\<close> the runtime throws
  a TypeError (\<open>None\<close>). An object gives its own member or \<open>undefined\<close>; an array or a
  string gives its \<open>length\<close> and its elements by index (for a string of one-byte
  characters); other names, and numbers and booleans, give \<open>undefined\<close>. Members
  inherited from the built-in prototypes are not looked up. The names the program
  reads are \<open>records\<close>, \<open>fields\<close>, \<open>id\<close>, \<open>length\<close> and \<open>0\<close>, which no built-in prototype
  has, and the key field of a table, which the statements below take outside the
  members of \<open>Object.prototype\<close> and read from objects only.
\<close>

definition index_named :: "string \<Rightarrow> nat \<Rightarrow> nat option" where
  "index_named k n = find (\<lambda>i. digits i = k) [0..<n]"

fun getProp :: "jsval \<Rightarrow> string \<Rightarrow> jsval option" where
  "getProp JUndefined k = None"
| "getProp JNull k = None"
| "getProp (JObj kvs) k = Some (case map_of kvs k of None \<Rightarrow> JUndefined | Some v \<Rightarrow> v)"
| "getProp (JArr xs) k =
     Some (if k = ''length'' then JNum (Finite (of_nat (length xs)))
           else (case index_named k (length xs) of None \<Rightarrow> JUndefined | Some i \<Rightarrow> xs ! i))"
| "getProp (JStr s) k =
     Some (if k = ''length'' then JNum (Finite (of_nat (length s)))
           else (case index_named k (length s) of None \<Rightarrow> JUndefined | Some i \<Rightarrow> JStr [s ! i]))"
| "getProp (JNum n) k = Some JUndefined"
| "getProp (JBool b) k = Some JUndefined"

text \<open>\<open>a || b\<close>\<close>

definition or_else :: "jsval \<Rightarrow> jsval \<Rightarrow> jsval" where
  "or_else a b = (if truthy a then a else b)"

text \<open>
  The elements a spread \<open>...v\<close> or a \<open>for (const x of v)\<close> goes through, for the values
  \<open>json.records || []\<close> can take: an array gives its elements, a string its characters
  (of one byte each), and any other value that is truthy is not iterable (a TypeError,
  \<open>None\<close>).
\<close>

fun iterate :: "jsval \<Rightarrow> jsval list option" where
  "iterate (JArr xs) = Some xs"
| "iterate (JStr s) = Some (map (\<lambda>ch. JStr [ch]) s)"
| "iterate v = None"

text \<open>
  \<open>x > k\<close> for an integer \<open>k\<close>. A number is compared as it is; \<open>undefined\<close> is NaN,
  \<open>null\<close> is 0 and a boolean is 0 or 1; the other operands are coerced by the platform.
\<close>

fun greater_than :: "platform \<Rightarrow> jsval \<Rightarrow> int \<Rightarrow> bool option" where
  "greater_than pf (JNum (Finite q)) k = Some (of_int k < q)"
| "greater_than pf (JNum NaN) k = Some False"
| "greater_than pf (JNum Infinity) k = Some True"
| "greater_than pf (JNum NegInfinity) k = Some False"
| "greater_than pf JUndefined k = Some False"
| "greater_than pf JNull k = Some (k < 0)"
| "greater_than pf (JBool b) k = Some (k < (if b then 1 else 0))"
| "greater_than pf v k = coerced_greater pf v k"

definition findAllByField ::
  "'e network \<Rightarrow> platform \<Rightarrow> config \<Rightarrow> string \<Rightarrow> string \<Rightarrow> jsval \<Rightarrow> trace
     \<Rightarrow> ('e failure + jsval) \<times> trace"
where
  "findAllByField fetch pf c table field val tr =
     (case quote pf val of
        None \<Rightarrow> (Inl TypeError, tr)
      | Some quoted \<Rightarrow>
          (let filt = encodeURIComponent pf
                        (''{'' @ field @ ''} = '' @ [CHR 0x22] @ quoted @ [CHR 0x22]);
               url = API c @ ''/'' @ encodeURIComponent pf table @ ''?filterByFormula='' @ filt
                       @ ''&pageSize=100''
           in case requestJSON fetch url
                     (Some \<lparr>http_method = None, headers = HEADERS c, body = None\<rparr>) None tr of
                (Inl e, tr') \<Rightarrow> (Inl e, tr')
              | (Inr json, tr') \<Rightarrow>
                  (case getProp json ''records'' of
                     None \<Rightarrow> (Inl TypeError, tr')
                   | Some recs \<Rightarrow> (Inr (or_else recs (JArr [])), tr'))))"

definition findOneByField ::
  "'e network \<Rightarrow> platform \<Rightarrow> config \<Rightarrow> string \<Rightarrow> string \<Rightarrow> jsval \<Rightarrow> trace
     \<Rightarrow> ('e failure + jsval) \<times> trace"
where
  "findOneByField fetch pf c table field val tr =
     (case findAllByField fetch pf c table field val tr of
        (Inl e, tr') \<Rightarrow> (Inl e, tr')
      | (Inr all, tr') \<Rightarrow>
          (case getProp all ''length'' of
             None \<Rightarrow> (Inl TypeError, tr')
           | Some len \<Rightarrow>
               (case greater_than pf len 1 of
                  None \<Rightarrow> (Inl TypeError, tr')
                | Some several \<Rightarrow>
                    if several \<and> strictDuplicates c then
                      (case js_String pf val of
                         None \<Rightarrow> (Inl TypeError, tr')
                       | Some val_text \<Rightarrow>
                           (case js_String pf len of
                              None \<Rightarrow> (Inl TypeError, tr')
                            | Some len_text \<Rightarrow>
                                (Inl (Error (''Duplicate '' @ table @ '' where '' @ field @ ''=''
                                        @ [CHR 0x22] @ val_text @ [CHR 0x22] @ '' ('' @ len_text
                                        @ '' found)'')),
                                 tr')))
                    else
                      (case getProp all ''0'' of
                         None \<Rightarrow> (Inl TypeError, tr')
                       | Some first \<Rightarrow> (Inr (or_else first JNull), tr')))))"

text \<open>The \<open>for\<close> loop of \<open>createMany\<close> over the chunks, with \<open>out\<close> and the trace.\<close>

fun createMany_loop ::
  "'e network \<Rightarrow> platform \<Rightarrow> config \<Rightarrow> string \<Rightarrow> jsval list list \<Rightarrow> jsval list \<Rightarrow> trace
     \<Rightarrow> ('e failure + jsval list) \<times> trace"
where
  "createMany_loop fetch pf c table [] out tr = (Inr out, tr)"
| "createMany_loop fetch pf c table (grp # rest) out tr =
     (let url = API c @ ''/'' @ encodeURIComponent pf table;
          bdy = JSON_stringify pf (JObj [(''records'', JArr grp)])
      in case requestJSON fetch url
                (Some \<lparr>http_method = Some ''POST'', headers = HEADERS c, body = Some bdy\<rparr>) None tr of
           (Inl e, tr') \<Rightarrow> (Inl e, tr')
         | (Inr json, tr') \<Rightarrow>
             (case getProp json ''records'' of
                None \<Rightarrow> (Inl TypeError, tr')
              | Some recs \<Rightarrow>
                  (case iterate (or_else recs (JArr [])) of
                     None \<Rightarrow> (Inl TypeError, tr')
                   | Some xs \<Rightarrow>
                       createMany_loop fetch pf c table rest (out @ xs)
                         (tr' @ [Sleep (politeDelayMs c)]))))"

definition createMany ::
  "'e network \<Rightarrow> platform \<Rightarrow> config \<Rightarrow> string \<Rightarrow> jsval list \<Rightarrow> trace
     \<Rightarrow> ('e failure + jsval list) \<times> trace"
where
  "createMany fetch pf c table records tr =
     createMany_loop fetch pf c table (chunk records (batchSize c)) [] tr"

fun updateMany_loop ::
  "'e network \<Rightarrow> platform \<Rightarrow> config \<Rightarrow> string \<Rightarrow> jsval list list \<Rightarrow> jsval list \<Rightarrow> trace
     \<Rightarrow> ('e failure + jsval list) \<times> trace"
where
  "updateMany_loop fetch pf c table [] out tr = (Inr out, tr)"
| "updateMany_loop fetch pf c table (grp # rest) out tr =
     (let url = API c @ ''/'' @ encodeURIComponent pf table;
          bdy = JSON_stringify pf (JObj [(''records'', JArr grp)])
      in case requestJSON fetch url
                (Some \<lparr>http_method = Some ''PATCH'', headers = HEADERS c, body = Some bdy\<rparr>) None tr of
           (Inl e, tr') \<Rightarrow> (Inl e, tr')
         | (Inr json, tr') \<Rightarrow>
             (case getProp json ''records'' of
                None \<Rightarrow> (Inl TypeError, tr')
              | Some recs \<Rightarrow>
                  (case iterate (or_else recs (JArr [])) of
                     None \<Rightarrow> (Inl TypeError, tr')
                   | Some xs \<Rightarrow>
                       updateMany_loop fetch pf c table rest (out @ xs)
                         (tr' @ [Sleep (politeDelayMs c)]))))"

definition updateMany ::
  "'e network \<Rightarrow> platform \<Rightarrow> config \<Rightarrow> string \<Rightarrow> jsval list \<Rightarrow> trace
     \<Rightarrow> ('e failure + jsval list) \<times> trace"
where
  "updateMany fetch pf c table records tr =
     updateMany_loop fetch pf c table (chunk records (batchSize c)) [] tr"

definition upsertByKey ::
  "'e network \<Rightarrow> platform \<Rightarrow> config \<Rightarrow> string \<Rightarrow> string \<Rightarrow> jsval \<Rightarrow> trace
     \<Rightarrow> ('e failure + jsval) \<times> trace"
where
  "upsertByKey fetch pf c table keyField flds tr =
     (case getProp flds keyField of
        None \<Rightarrow> (Inl TypeError, tr)
      | Some keyVal \<Rightarrow>
          if \<not> truthy keyVal then (Inl (Error (''Upsert missing '' @ keyField)), tr)
          else
            (case findOneByField fetch pf c table keyField keyVal tr of
               (Inl e, tr1) \<Rightarrow> (Inl e, tr1)
             | (Inr existing, tr1) \<Rightarrow>
                 if truthy existing then
                   (case getProp existing ''id'' of
                      None \<Rightarrow> (Inl TypeError, tr1)
                    | Some existing_id \<Rightarrow>
                        (case js_String pf existing_id of
                           None \<Rightarrow> (Inl TypeError, tr1)
                         | Some id_text \<Rightarrow>
                             (let url = API c @ ''/'' @ encodeURIComponent pf table @ ''/''
                                          @ id_text;
                                  bdy = JSON_stringify pf (JObj [(''fields'', flds)])
                              in case requestJSON fetch url
                                        (Some \<lparr>http_method = Some ''PATCH'', headers = HEADERS c,
                                               body = Some bdy\<rparr>) None tr1 of
                                   (Inl e, tr2) \<Rightarrow> (Inl e, tr2)
                                 | (Inr json, tr2) \<Rightarrow>
                                     (case getProp json ''id'' of
                                        None \<Rightarrow> (Inl TypeError, tr2)
                                      | Some j \<Rightarrow> (Inr j, tr2)))))
                 else
                   (let url = API c @ ''/'' @ encodeURIComponent pf table;
                        bdy = JSON_stringify pf
                                (JObj [(''records'', JArr [JObj [(''fields'', flds)]])])
                    in case requestJSON fetch url
                              (Some \<lparr>http_method = Some ''POST'', headers = HEADERS c,
                                     body = Some bdy\<rparr>) None tr1 of
                         (Inl e, tr2) \<Rightarrow> (Inl e, tr2)
                       | (Inr json, tr2) \<Rightarrow>
                           (case getProp json ''records'' of
                              None \<Rightarrow> (Inl TypeError, tr2)
                            | Some recs \<Rightarrow>
                                (case getProp recs ''0'' of
                                   None \<Rightarrow> (Inl TypeError, tr2)
                                 | Some first \<Rightarrow>
                                     (case getProp first ''id'' of
                                        None \<Rightarrow> (Inl TypeError, tr2)
                                      | Some j \<Rightarrow> (Inr j, tr2)))))))"

text \<open>
  The inner loop of \<open>findRecordsByKeys\<close>. The \<open>Map\<close> is an association list in
  insertion order; \<open>map.set\<close> replaces the value of a key already there and appends a
  new key otherwise.
\<close>

fun index_records ::
  "platform \<Rightarrow> string \<Rightarrow> jsval list \<Rightarrow> (string \<times> jsval) list
     \<Rightarrow> (string \<times> jsval) list option"
where
  "index_records pf keyField [] m = Some m"
| "index_records pf keyField (rec # recs) m =
     (case getProp rec ''fields'' of
        None \<Rightarrow> None
      | Some flds \<Rightarrow>
          (case (if flds = JNull \<or> flds = JUndefined then Some JUndefined
                 else getProp flds keyField) of
             None \<Rightarrow> None
           | Some v \<Rightarrow>
               if truthy v then
                 (case js_String pf v of
                    None \<Rightarrow> None
                  | Some key_text \<Rightarrow>
                      (case getProp rec ''id'' of
                         None \<Rightarrow> None
                       | Some rid \<Rightarrow>
                           index_records pf keyField recs (AList.update key_text rid m)))
               else index_records pf keyField recs m))"

text \<open>The outer loop of \<open>findRecordsByKeys\<close> over the groups of conditions.\<close>

fun findRecordsByKeys_loop ::
  "'e network \<Rightarrow> platform \<Rightarrow> config \<Rightarrow> string \<Rightarrow> string \<Rightarrow> string list list
     \<Rightarrow> (string \<times> jsval) list \<Rightarrow> trace \<Rightarrow> ('e failure + (string \<times> jsval) list) \<times> trace"
where
  "findRecordsByKeys_loop fetch pf c table keyField [] m tr = (Inr m, tr)"
| "findRecordsByKeys_loop fetch pf c table keyField (grp # rest) m tr =
     (let filt = encodeURIComponent pf (''OR('' @ join '','' grp @ '')'');
          url = API c @ ''/'' @ encodeURIComponent pf table @ ''?filterByFormula='' @ filt
                  @ ''&pageSize=100''
      in case requestJSON fetch url
                (Some \<lparr>http_method = None, headers = HEADERS c, body = None\<rparr>) None tr of
           (Inl e, tr') \<Rightarrow> (Inl e, tr')
         | (Inr json, tr') \<Rightarrow>
             (case getProp json ''records'' of
                None \<Rightarrow> (Inl TypeError, tr')
              | Some recs \<Rightarrow>
                  (case iterate (or_else recs (JArr [])) of
                     None \<Rightarrow> (Inl TypeError, tr')
                   | Some xs \<Rightarrow>
                       (case index_records pf keyField xs m of
                          None \<Rightarrow> (Inl TypeError, tr')
                        | Some m' \<Rightarrow>
                            findRecordsByKeys_loop fetch pf c table keyField rest m' tr'))))"

text \<open>
  \<open>keys.filter(Boolean).map(...)\<close> writes the condition of every truthy key before any
  call is made; a key that has no string stops it with the TypeError.
\<close>

definition findRecordsByKeys ::
  "'e network \<Rightarrow> platform \<Rightarrow> config \<Rightarrow> string \<Rightarrow> string \<Rightarrow> jsval list \<Rightarrow> trace
     \<Rightarrow> ('e failure + (string \<times> jsval) list) \<times> trace"
where
  "findRecordsByKeys fetch pf c table keyField keys tr =
     (case those (map (\<lambda>k. map_option
                               (\<lambda>quoted. ''{'' @ keyField @ ''} = '' @ [CHR 0x22] @ quoted
                                   @ [CHR 0x22])
                               (quote pf k))
                    (filter truthy keys)) of
        None \<Rightarrow> (Inl TypeError, tr)
      | Some parts \<Rightarrow> findRecordsByKeys_loop fetch pf c table keyField (chunk parts 20) [] tr)"

section \<open>Vocabulary of the statements\<close>

text \<open>
  The events of \<open>k\<close> attempts that each ended in a retry, the first of them at attempt
  index \<open>i\<close>: every attempt is one network call followed by its backoff delay.
\<close>

definition failed_attempts :: "string \<Rightarrow> options \<Rightarrow> int \<Rightarrow> nat \<Rightarrow> nat \<Rightarrow> trace" where
  "failed_attempts url opts b i k =
     concat (map (\<lambda>j. [Fetch url opts, Sleep (b * 2 ^ j)]) [i..<i + k])"

text \<open>
  Two networks in the manner of the mocks of \<open>test/http.test.mjs\<close>: one that gives the
  same answer to every call, and one that gives the answers of a list to the first
  calls, in order, and a default answer afterwards.
\<close>

definition always :: "'e + 'e response \<Rightarrow> 'e network" where
  "always answer tr = answer"

definition scripted :: "('e + 'e response) list \<Rightarrow> 'e + 'e response \<Rightarrow> 'e network" where
  "scripted once dflt tr =
     (if 0 < calls tr \<and> calls tr \<le> length once then once ! (calls tr - 1) else dflt)"

text \<open>
  \<open>served fetch t = Some xs\<close>: the network answers the call that ends the trace \<open>t\<close>
  at once with a success response (not 429, below 500, \<open>ok\<close>), whose body parses and
  carries the records \<open>xs\<close>: \<open>json.records || []\<close> is the array of the \<open>xs\<close>.
\<close>

definition served :: "'e network \<Rightarrow> trace \<Rightarrow> jsval list option" where
  "served fetch t =
     (case fetch t of
        Inl e \<Rightarrow> None
      | Inr res \<Rightarrow>
          if status res = 429 \<or> 500 \<le> status res \<or> \<not> ok res then None
          else (case res_json res of
                  Inl e \<Rightarrow> None
                | Inr json \<Rightarrow>
                    (case getProp json ''records'' of
                       None \<Rightarrow> None
                     | Some recs \<Rightarrow>
                         (case or_else recs (JArr []) of JArr xs \<Rightarrow> Some xs | other \<Rightarrow> None))))"

text \<open>The network call \<open>createMany\<close> makes for one batch.\<close>

definition create_call :: "platform \<Rightarrow> config \<Rightarrow> string \<Rightarrow> jsval list \<Rightarrow> event" where
  "create_call pf c table grp =
     Fetch (API c @ ''/'' @ encodeURIComponent pf table)
       \<lparr>http_method = Some ''POST'', headers = HEADERS c,
        body = Some (JSON_stringify pf (JObj [(''records'', JArr grp)]))\<rparr>"

text \<open>
  The equality condition \<open>findRecordsByKeys\<close> writes for a key whose string is \<open>txt\<close>,
  and the query (a call without a method, that is a GET) it makes for one group of
  conditions.
\<close>

definition key_condition :: "string \<Rightarrow> string \<Rightarrow> string" where
  "key_condition keyField txt =
     ''{'' @ keyField @ ''} = '' @ [CHR 0x22] @ replace_quotes txt @ [CHR 0x22]"

definition query_call :: "platform \<Rightarrow> config \<Rightarrow> string \<Rightarrow> string list \<Rightarrow> event" where
  "query_call pf c table grp =
     Fetch (API c @ ''/'' @ encodeURIComponent pf table @ ''?filterByFormula=''
              @ encodeURIComponent pf (''OR('' @ join '','' grp @ '')'') @ ''&pageSize=100'')
       \<lparr>http_method = None, headers = HEADERS c, body = None\<rparr>"

text \<open>
  The calls of \<open>upsertByKey\<close>: the lookup of \<open>findAllByField\<close> (a GET) for a value whose
  string is \<open>txt\<close>, and the PATCH of the record whose identifier has the string
  \<open>id_text\<close>; its POST is \<open>create_call\<close> with the one new record.
\<close>

definition lookup_call :: "platform \<Rightarrow> config \<Rightarrow> string \<Rightarrow> string \<Rightarrow> string \<Rightarrow> event" where
  "lookup_call pf c table field txt =
     Fetch (API c @ ''/'' @ encodeURIComponent pf table @ ''?filterByFormula=''
              @ encodeURIComponent pf
                  (''{'' @ field @ ''} = '' @ [CHR 0x22] @ replace_quotes txt @ [CHR 0x22])
              @ ''&pageSize=100'')
       \<lparr>http_method = None, headers = HEADERS c, body = None\<rparr>"

definition patch_call :: "platform \<Rightarrow> config \<Rightarrow> string \<Rightarrow> string \<Rightarrow> jsval \<Rightarrow> event" where
  "patch_call pf c table id_text flds =
     Fetch (API c @ ''/'' @ encodeURIComponent pf table @ ''/'' @ id_text)
       \<lparr>http_method = Some ''PATCH'', headers = HEADERS c,
        body = Some (JSON_stringify pf (JObj [(''fields'', flds)]))\<rparr>"

text \<open>
  A platform for the examples: \<open>encodeURIComponent\<close> leaves its argument as it is,
  \<open>JSON.stringify\<close> gives one fixed text, and the two other built-ins are not reached.
\<close>

definition example_platform :: platform where
  "example_platform =
     \<lparr>encodeURIComponent = id, JSON_stringify = (\<lambda>v. ''{}''), Number_text = (\<lambda>q. ''''),
      coerced_greater = (\<lambda>v k. None)\<rparr>"

text \<open>
  The names of the members every object inherits from \<open>Object.prototype\<close>. Reading one
  of them from an object that has no own member of the name gives a function or an
  object of the runtime, which is outside the values modelled here.
\<close>

definition Object_prototype_member :: "string \<Rightarrow> bool" where
  "Object_prototype_member k =
     (k \<in> set [''constructor'', ''__defineGetter__'', ''__defineSetter__'', ''hasOwnProperty'',
                ''__lookupGetter__'', ''__lookupSetter__'', ''isPrototypeOf'',
                ''propertyIsEnumerable'', ''toString'', ''valueOf'', ''__proto__'',
                ''toLocaleString''])"

text \<open>
  What the inner loop of \<open>findRecordsByKeys\<close> reads from a record that is an object:
  \<open>rec.fields?.[keyField]\<close> and \<open>rec.id\<close>; and the entries it sets for a list of
  records, in order.
\<close>

definition read_prop :: "jsval \<Rightarrow> string \<Rightarrow> jsval" where
  "read_prop v k = (case getProp v k of None \<Rightarrow> JUndefined | Some x \<Rightarrow> x)"

definition key_of :: "string \<Rightarrow> jsval \<Rightarrow> jsval" where
  "key_of keyField rec =
     (if read_prop rec ''fields'' = JNull \<or> read_prop rec ''fields'' = JUndefined
      then JUndefined
      else read_prop (read_prop rec ''fields'') keyField)"

definition text_of :: "platform \<Rightarrow> jsval \<Rightarrow> string" where
  "text_of pf v = (case js_String pf v of None \<Rightarrow> [] | Some s \<Rightarrow> s)"

definition key_entries :: "platform \<Rightarrow> string \<Rightarrow> jsval list \<Rightarrow> (string \<times> jsval) list" where
  "key_entries pf keyField recs =
     map (\<lambda>rec. (text_of pf (key_of keyField rec), read_prop rec ''id''))
       (filter (\<lambda>rec. truthy (key_of keyField rec)) recs)"

text \<open>
  A record the inner loop can index: it is an object, its \<open>fields\<close> are an object,
  \<open>null\<close> or absent, and its key value, when truthy, has a string.
\<close>

definition indexable :: "platform \<Rightarrow> string \<Rightarrow> jsval \<Rightarrow> bool" where
  "indexable pf keyField rec =
     ((case rec of JObj kvs \<Rightarrow> True | other \<Rightarrow> False)
      \<and> (case read_prop rec ''fields'' of
           JObj kvs \<Rightarrow> True | JNull \<Rightarrow> True | JUndefined \<Rightarrow> True | other \<Rightarrow> False)
      \<and> (truthy (key_of keyField rec) \<longrightarrow> js_String pf (key_of keyField rec) \<noteq> None))"

section \<open>Traces\<close>

lemma calls_simps [simp]:
  "calls [] = 0"
  "calls (Fetch u opts # tr) = Suc (calls tr)"
  "calls (Sleep d # tr) = calls tr"
  by (simp_all add: calls_def)

lemma sleeps_simps [simp]:
  "sleeps [] = []"
  "sleeps (Fetch u opts # tr) = sleeps tr"
  "sleeps (Sleep d # tr) = d # sleeps tr"
  by (simp_all add: sleeps_def)

lemma calls_append [simp]: "calls (xs @ ys) = calls xs + calls ys"
  by (simp add: calls_def)

lemma sleeps_append [simp]: "sleeps (xs @ ys) = sleeps xs @ sleeps ys"
  by (simp add: sleeps_def)

lemma failed_attempts_0 [simp]: "failed_attempts url opts b i 0 = []"
  by (simp add: failed_attempts_def)

lemma failed_attempts_Suc:
  "failed_attempts url opts b i (Suc k) =
     failed_attempts url opts b i k @ [Fetch url opts, Sleep (b * 2 ^ (i + k))]"
  by (simp add: failed_attempts_def)

lemma calls_failed_attempts [simp]: "calls (failed_attempts url opts b i k) = k"
  by (induction k) (simp_all add: failed_attempts_Suc)

lemma sleeps_failed_attempts:
  "sleeps (failed_attempts url opts b i k) = map (\<lambda>j. b * 2 ^ j) [i..<i + k]"
  by (induction k) (simp_all add: failed_attempts_Suc)

section \<open>The retry loop\<close>

lemma loop_retry_step:
  assumes "int i < R" and "fetch (tr @ [Fetch url opts]) = Inr res"
    and "status res = 429 \<or> 500 \<le> status res"
  shows "requestJSON_loop fetch url opts R b i tr =
           requestJSON_loop fetch url opts R b (Suc i) (tr @ [Fetch url opts, Sleep (b * 2 ^ i)])"
  using assms by (subst requestJSON_loop.simps) auto

lemma loop_skip:
  assumes "int (i + k) \<le> R"
    and "\<forall>j<k. \<exists>res. fetch (tr @ failed_attempts url opts b i j @ [Fetch url opts]) = Inr res
            \<and> (status res = 429 \<or> 500 \<le> status res)"
  shows "requestJSON_loop fetch url opts R b i tr =
           requestJSON_loop fetch url opts R b (i + k) (tr @ failed_attempts url opts b i k)"
  using assms
proof (induction k)
  case 0
  then show ?case by simp
next
  case (Suc k)
  from Suc.prems have le: "int (i + k) \<le> R" and lt: "int (i + k) < R" by simp_all
  from Suc.prems(2) have prev: "\<forall>j<k. \<exists>res. fetch (tr @ failed_attempts url opts b i j @ [Fetch url opts]) = Inr res
            \<and> (status res = 429 \<or> 500 \<le> status res)"
    by simp
  from Suc.prems(2) obtain res where
    res: "fetch ((tr @ failed_attempts url opts b i k) @ [Fetch url opts]) = Inr res"
      "status res = 429 \<or> 500 \<le> status res"
    by auto
  have "requestJSON_loop fetch url opts R b i tr =
          requestJSON_loop fetch url opts R b (i + k) (tr @ failed_attempts url opts b i k)"
    using le prev by (rule Suc.IH)
  also have "\<dots> = requestJSON_loop fetch url opts R b (Suc (i + k))
                     ((tr @ failed_attempts url opts b i k) @ [Fetch url opts, Sleep (b * 2 ^ (i + k))])"
    using lt res
    by (rule loop_retry_step [where fetch = fetch and tr = "tr @ failed_attempts url opts b i k"])
  finally show ?case by (simp add: failed_attempts_Suc)
qed

lemma loop_exhausted:
  assumes "int i = R" and "fetch (tr @ [Fetch url opts]) = Inr res"
    and "status res = 429 \<or> 500 \<le> status res"
  shows "requestJSON_loop fetch url opts R b i tr =
           (Thrown (Error (''HTTP '' @ Number_toString (status res) @ '' after ''
                    @ Number_toString R @ '' retries: '' @ text_or_empty res)),
            tr @ [Fetch url opts])"
  using assms by (subst requestJSON_loop.simps) auto

lemma loop_client_error:
  assumes "int i \<le> R" and "fetch (tr @ [Fetch url opts]) = Inr res"
    and "\<not> ok res" and "status res \<noteq> 429" and "status res < 500"
  shows "requestJSON_loop fetch url opts R b i tr =
           (Thrown (Error (''HTTP '' @ Number_toString (status res) @ '': '' @ text_or_empty res)),
            tr @ [Fetch url opts])"
  using assms by (subst requestJSON_loop.simps) auto

lemma loop_transport_failure:
  assumes "int i \<le> R" and "fetch (tr @ [Fetch url opts]) = Inl e"
  shows "requestJSON_loop fetch url opts R b i tr = (Thrown (Raised e), tr @ [Fetch url opts])"
  using assms by (subst requestJSON_loop.simps) auto

lemma loop_success:
  assumes "int i \<le> R" and "fetch (tr @ [Fetch url opts]) = Inr res"
    and "ok res" and "status res \<noteq> 429" and "status res < 500" and "res_json res = Inr v"
  shows "requestJSON_loop fetch url opts R b i tr = (Returned v, tr @ [Fetch url opts])"
  using assms by (subst requestJSON_loop.simps) auto

lemma loop_extends: "\<exists>ext. snd (requestJSON_loop fetch url opts R b i tr) = tr @ ext"
proof (induction fetch url opts R b i tr rule: requestJSON_loop.induct)
  case (1 fetch url opts R b i tr)
  show ?case
  proof (cases "int i \<le> R")
    case False
    then show ?thesis by (subst requestJSON_loop.simps) simp
  next
    case le: True
    show ?thesis
    proof (cases "fetch (tr @ [Fetch url opts])")
      case (Inl e)
      with le show ?thesis by (simp add: loop_transport_failure)
    next
      case (Inr res)
      show ?thesis
      proof (cases "(status res = 429 \<or> 500 \<le> status res) \<and> int i \<noteq> R")
        case True
        with le Inr "1.IH" [of res] obtain ext where
          "snd (requestJSON_loop fetch url opts R b (Suc i)
                 (tr @ [Fetch url opts, Sleep (b * 2 ^ i)])) = (tr @ [Fetch url opts, Sleep (b * 2 ^ i)]) @ ext"
          by auto
        moreover from True le Inr have "requestJSON_loop fetch url opts R b i tr =
           requestJSON_loop fetch url opts R b (Suc i) (tr @ [Fetch url opts, Sleep (b * 2 ^ i)])"
          by (intro loop_retry_step) auto
        ultimately show ?thesis by simp
      next
        case False
        with le Inr show ?thesis
          by (subst requestJSON_loop.simps) (auto split: sum.splits)
      qed
    qed
  qed
qed

lemma loop_settles:
  assumes "int i \<le> R"
  shows "case requestJSON_loop fetch url opts R b i tr of
           (Returned v, tr') \<Rightarrow> (\<exists>res. fetch tr' = Inr res \<and> ok res \<and> res_json res = Inr v)
         | (Thrown e, tr') \<Rightarrow> True
         | (LoopExit, tr') \<Rightarrow> False"
  using assms
proof (induction fetch url opts R b i tr rule: requestJSON_loop.induct)
  case (1 fetch url opts R b i tr)
  show ?case
  proof (cases "fetch (tr @ [Fetch url opts])")
    case (Inl e)
    with "1.prems" show ?thesis by (simp add: loop_transport_failure)
  next
    case (Inr res)
    show ?thesis
    proof (cases "(status res = 429 \<or> 500 \<le> status res) \<and> int i \<noteq> R")
      case True
      with "1.prems" Inr have "requestJSON_loop fetch url opts R b i tr =
           requestJSON_loop fetch url opts R b (Suc i) (tr @ [Fetch url opts, Sleep (b * 2 ^ i)])"
        by (intro loop_retry_step) auto
      moreover from True "1.prems" Inr "1.IH" [of res] have
        "case requestJSON_loop fetch url opts R b (Suc i) (tr @ [Fetch url opts, Sleep (b * 2 ^ i)]) of
           (Returned v, tr') \<Rightarrow> (\<exists>res. fetch tr' = Inr res \<and> ok res \<and> res_json res = Inr v)
         | (Thrown e, tr') \<Rightarrow> True
         | (LoopExit, tr') \<Rightarrow> False"
        by auto
      ultimately show ?thesis by simp
    next
      case False
      with "1.prems" Inr show ?thesis
        by (subst requestJSON_loop.simps) (auto split: sum.splits)
    qed
  qed
qed

lemma requestJSON_skip:
  assumes "int k \<le> retries_of rc"
    and "\<forall>j<k. \<exists>r. fetch (tr @ failed_attempts url (options_of oo) (baseDelayMs_of rc) 0 j
                          @ [Fetch url (options_of oo)]) = Inr r
            \<and> (status r = 429 \<or> 500 \<le> status r)"
  shows "requestJSON_loop fetch url (options_of oo) (retries_of rc) (baseDelayMs_of rc) 0 tr =
         requestJSON_loop fetch url (options_of oo) (retries_of rc) (baseDelayMs_of rc) k
           (tr @ failed_attempts url (options_of oo) (baseDelayMs_of rc) 0 k)"
  using loop_skip [where i = 0 and k = k and R = "retries_of rc" and fetch = fetch and tr = tr
      and url = url and opts = "options_of oo" and b = "baseDelayMs_of rc"] assms
  by simp

lemma loop_first_call:
  assumes "int i \<le> R"
  shows "\<exists>rest. snd (requestJSON_loop fetch url opts R b i tr) = tr @ Fetch url opts # rest"
proof (cases "fetch (tr @ [Fetch url opts])")
  case (Inl e)
  with assms show ?thesis by (simp add: loop_transport_failure)
next
  case (Inr res)
  show ?thesis
  proof (cases "(status res = 429 \<or> 500 \<le> status res) \<and> int i \<noteq> R")
    case True
    with assms Inr have "requestJSON_loop fetch url opts R b i tr =
        requestJSON_loop fetch url opts R b (Suc i) (tr @ [Fetch url opts, Sleep (b * 2 ^ i)])"
      by (intro loop_retry_step) auto
    moreover obtain ext where
      "snd (requestJSON_loop fetch url opts R b (Suc i) (tr @ [Fetch url opts, Sleep (b * 2 ^ i)])) =
         (tr @ [Fetch url opts, Sleep (b * 2 ^ i)]) @ ext"
      using loop_extends by blast
    ultimately show ?thesis by simp
  next
    case False
    with assms Inr show ?thesis
      by (subst requestJSON_loop.simps) (auto split: sum.splits)
  qed
qed

lemma snd_requestJSON:
  "snd (requestJSON fetch url oo rc tr) =
     snd (requestJSON_loop fetch url (options_of oo) (retries_of rc) (baseDelayMs_of rc) 0 tr)"
  by (simp add: requestJSON_def split: prod.splits completion.splits)

lemma requestJSON_negative_retries:
  assumes "retries_of rc < 0"
  shows "requestJSON fetch url oo rc tr = (Inr JUndefined, tr)"
  using assms by (simp add: requestJSON_def requestJSON_loop.simps)

lemma loop_last_attempt:
  assumes "int i = R"
  shows "snd (requestJSON_loop fetch url opts R b i tr) = tr @ [Fetch url opts]"
  using assms
  by (subst requestJSON_loop.simps) (auto split: sum.splits)

section \<open>Properties of requestJSON\<close>

text \<open>
  C1. When every attempt is answered with status 429 or a status of 500 and above, a
  call with \<open>retries = R\<close> makes exactly \<open>R + 1\<close> network calls, with the backoff delays
  between them, and rejects with an \<open>Error\<close> whose message is
  \<open>HTTP <status> after <R> retries: <body text>\<close>, status and text being those of the
  last response (the text is empty when reading it fails).
\<close>

theorem requestJSON_retries_exhausted:
  assumes "retries_of rc = int R"
    and "\<forall>j<R. \<exists>r. fetch (tr @ failed_attempts url (options_of oo) (baseDelayMs_of rc) 0 j
                          @ [Fetch url (options_of oo)]) = Inr r
            \<and> (status r = 429 \<or> 500 \<le> status r)"
    and "fetch (tr @ failed_attempts url (options_of oo) (baseDelayMs_of rc) 0 R
                 @ [Fetch url (options_of oo)]) = Inr res"
    and "status res = 429 \<or> 500 \<le> status res"
  shows "requestJSON fetch url oo rc tr =
           (Inl (Error (''HTTP '' @ Number_toString (status res) @ '' after ''
                   @ Number_toString (int R) @ '' retries: ''
                   @ (case res_text res of Inl e \<Rightarrow> [] | Inr t \<Rightarrow> t))),
            tr @ failed_attempts url (options_of oo) (baseDelayMs_of rc) 0 R
               @ [Fetch url (options_of oo)])
         \<and> calls (snd (requestJSON fetch url oo rc tr)) = calls tr + (R + 1)"
proof -
  let ?opts = "options_of oo" and ?b = "baseDelayMs_of rc"
  have skip: "requestJSON_loop fetch url ?opts (retries_of rc) ?b 0 tr =
      requestJSON_loop fetch url ?opts (retries_of rc) ?b R (tr @ failed_attempts url ?opts ?b 0 R)"
    using assms(1,2) by (intro requestJSON_skip) simp_all
  have last: "requestJSON_loop fetch url ?opts (retries_of rc) ?b R (tr @ failed_attempts url ?opts ?b 0 R) =
      (Thrown (Error (''HTTP '' @ Number_toString (status res) @ '' after ''
                    @ Number_toString (retries_of rc) @ '' retries: '' @ text_or_empty res)),
       (tr @ failed_attempts url ?opts ?b 0 R) @ [Fetch url ?opts])"
    using assms(1,3,4)
    by (intro loop_exhausted [where fetch = fetch]) simp_all
  have eq: "requestJSON fetch url oo rc tr =
           (Inl (Error (''HTTP '' @ Number_toString (status res) @ '' after ''
                   @ Number_toString (int R) @ '' retries: ''
                   @ (case res_text res of Inl e \<Rightarrow> [] | Inr t \<Rightarrow> t))),
            tr @ failed_attempts url ?opts ?b 0 R @ [Fetch url ?opts])"
    unfolding requestJSON_def skip last by (simp add: assms(1) text_or_empty_def)
  show ?thesis
    by (simp add: eq)
qed

theorem requestJSON_retries_exhausted_witness:
  "requestJSON (always (Inr \<lparr>status = 429, ok = False, res_text = Inr ''Rate Limited'',
                               res_json = Inl ()\<rparr>))
     ''https://api.example.com/data'' (Some no_options)
     (Some \<lparr>retries = Some 2, baseDelayMs = Some 10\<rparr>) [] =
   (Inl (Error ''HTTP 429 after 2 retries: Rate Limited''),
    [Fetch ''https://api.example.com/data'' no_options, Sleep 10,
     Fetch ''https://api.example.com/data'' no_options, Sleep 20,
     Fetch ''https://api.example.com/data'' no_options])
   \<and> calls (snd (requestJSON (always (Inr \<lparr>status = 429, ok = False,
                     res_text = Inr ''Rate Limited'', res_json = Inl ()\<rparr>))
        ''https://api.example.com/data'' (Some no_options)
        (Some \<lparr>retries = Some 2, baseDelayMs = Some 10\<rparr>) [])) = 3"
  using requestJSON_retries_exhausted [where R = 2 and tr = "[]"
      and rc = "Some \<lparr>retries = Some 2, baseDelayMs = Some 10\<rparr>"
      and fetch = "always (Inr \<lparr>status = 429, ok = False, res_text = Inr ''Rate Limited'',
                               res_json = Inl ()\<rparr>)"
      and url = "''https://api.example.com/data''" and oo = "Some no_options"
      and res = "\<lparr>status = 429, ok = False, res_text = Inr ''Rate Limited'', res_json = Inl ()\<rparr>"]
  by (simp add: always_def retries_of_def baseDelayMs_of_def options_of_def failed_attempts_def
      Number_toString_def digits.simps upt_rec)

text \<open>
  C2. A first response that is not a success and not retryable (neither 429 nor 500
  and above) ends the call at once: exactly one network call, and a rejection with an
  \<open>Error\<close> whose message is \<open>HTTP <status>: <text>\<close>, the text being the body text, or
  empty when reading the body fails. The code reads the success range from the flag
  \<open>res.ok\<close>; a response made by \<open>fetch\<close> has it true for the statuses 200 to 299 only,
  so it is false for every status outside the 2xx and 3xx range.
\<close>

theorem requestJSON_client_error:
  assumes "0 \<le> retries_of rc"
    and "fetch (tr @ [Fetch url (options_of oo)]) = Inr res"
    and "\<not> ok res" and "status res \<noteq> 429" and "status res < 500"
  shows "requestJSON fetch url oo rc tr =
           (Inl (Error (''HTTP '' @ Number_toString (status res) @ '': ''
                   @ (case res_text res of Inl e \<Rightarrow> [] | Inr t \<Rightarrow> t))),
            tr @ [Fetch url (options_of oo)])
         \<and> calls (snd (requestJSON fetch url oo rc tr)) = calls tr + 1"
proof -
  have "requestJSON_loop fetch url (options_of oo) (retries_of rc) (baseDelayMs_of rc) 0 tr =
          (Thrown (Error (''HTTP '' @ Number_toString (status res) @ '': '' @ text_or_empty res)),
           tr @ [Fetch url (options_of oo)])"
    using assms by (intro loop_client_error) simp_all
  then show ?thesis
    by (simp add: requestJSON_def text_or_empty_def)
qed

theorem requestJSON_client_error_witness:
  "requestJSON (always (Inr \<lparr>status = 404, ok = False, res_text = Inl ''No body'',
                               res_json = Inl ''No body''\<rparr>))
     ''https://api.example.com/notfound'' None None [] =
   (Inl (Error ''HTTP 404: ''), [Fetch ''https://api.example.com/notfound'' no_options])
   \<and> requestJSON (always (Inr \<lparr>status = 404, ok = False, res_text = Inr ''Not Found'',
                               res_json = Inl ''No body''\<rparr>))
     ''https://api.example.com/notfound'' None None [] =
   (Inl (Error ''HTTP 404: Not Found''), [Fetch ''https://api.example.com/notfound'' no_options])"
  using requestJSON_client_error [where rc = None and tr = "[]" and oo = None
      and url = "''https://api.example.com/notfound''"
      and fetch = "always (Inr \<lparr>status = 404, ok = False, res_text = Inl ''No body'',
                               res_json = Inl ''No body''\<rparr>)"
      and res = "\<lparr>status = 404, ok = False, res_text = Inl ''No body'',
                               res_json = Inl ''No body''\<rparr>"]
    requestJSON_client_error [where rc = None and tr = "[]" and oo = None
      and url = "''https://api.example.com/notfound''"
      and fetch = "always (Inr \<lparr>status = 404, ok = False, res_text = Inr ''Not Found'',
                               res_json = Inl ''No body''\<rparr>)"
      and res = "\<lparr>status = 404, ok = False, res_text = Inr ''Not Found'',
                               res_json = Inl ''No body''\<rparr>"]
  by (simp add: always_def retries_of_def options_of_def Number_toString_def digits.simps)

text \<open>
  C3. A transport failure (the network call itself rejects), at the first attempt or
  after \<open>k\<close> retried ones, rejects the call with that same value, and no call follows
  it, whatever the retry count.
\<close>

theorem requestJSON_transport_failure:
  assumes "int k \<le> retries_of rc"
    and "\<forall>j<k. \<exists>r. fetch (tr @ failed_attempts url (options_of oo) (baseDelayMs_of rc) 0 j
                          @ [Fetch url (options_of oo)]) = Inr r
            \<and> (status r = 429 \<or> 500 \<le> status r)"
    and "fetch (tr @ failed_attempts url (options_of oo) (baseDelayMs_of rc) 0 k
                 @ [Fetch url (options_of oo)]) = Inl e"
  shows "requestJSON fetch url oo rc tr =
           (Inl (Raised e),
            tr @ failed_attempts url (options_of oo) (baseDelayMs_of rc) 0 k
               @ [Fetch url (options_of oo)])"
proof -
  let ?opts = "options_of oo" and ?b = "baseDelayMs_of rc"
  have skip: "requestJSON_loop fetch url ?opts (retries_of rc) ?b 0 tr =
      requestJSON_loop fetch url ?opts (retries_of rc) ?b k (tr @ failed_attempts url ?opts ?b 0 k)"
    using assms(1,2) by (rule requestJSON_skip)
  have last: "requestJSON_loop fetch url ?opts (retries_of rc) ?b k (tr @ failed_attempts url ?opts ?b 0 k) =
      (Thrown (Raised e), (tr @ failed_attempts url ?opts ?b 0 k) @ [Fetch url ?opts])"
    using assms(1,3)
    by (intro loop_transport_failure [where fetch = fetch]) simp_all
  show ?thesis
    unfolding requestJSON_def skip last by simp
qed

theorem requestJSON_transport_failure_witness:
  "requestJSON (always (Inl ''Network error'')) ''https://api.example.com/data'' None None [] =
     (Inl (Raised ''Network error''), [Fetch ''https://api.example.com/data'' no_options])
   \<and> requestJSON
       (scripted [Inr \<lparr>status = 503, ok = False, res_text = Inr ''Service Unavailable'',
                       res_json = Inl ''no json''\<rparr>]
          (Inl ''Network error''))
       ''https://api.example.com/data'' None (Some \<lparr>retries = Some 5, baseDelayMs = Some 10\<rparr>) [] =
     (Inl (Raised ''Network error''),
      [Fetch ''https://api.example.com/data'' no_options, Sleep 10,
       Fetch ''https://api.example.com/data'' no_options])"
  using requestJSON_transport_failure [where k = 0 and rc = None and tr = "[]" and oo = None
      and url = "''https://api.example.com/data''" and e = "''Network error''"
      and fetch = "always (Inl ''Network error'')"]
    requestJSON_transport_failure [where k = 1
      and rc = "Some \<lparr>retries = Some 5, baseDelayMs = Some 10\<rparr>" and tr = "[]" and oo = None
      and url = "''https://api.example.com/data''" and e = "''Network error''"
      and fetch = "scripted [Inr \<lparr>status = 503, ok = False, res_text = Inr ''Service Unavailable'',
                       res_json = Inl ''no json''\<rparr>]
          (Inl ''Network error'')"]
  by (simp add: always_def scripted_def retries_of_def baseDelayMs_of_def options_of_def
      failed_attempts_def)

text \<open>
  C4. After \<open>k\<close> retryable responses, \<open>k\<close> within the retry count, a success response
  whose body parses resolves the call with the parsed body; \<open>k + 1\<close> network calls were
  made, the last event of the trace being the call that succeeded.
\<close>

theorem requestJSON_retry_then_success:
  assumes "int k \<le> retries_of rc"
    and "\<forall>j<k. \<exists>r. fetch (tr @ failed_attempts url (options_of oo) (baseDelayMs_of rc) 0 j
                          @ [Fetch url (options_of oo)]) = Inr r
            \<and> (status r = 429 \<or> 500 \<le> status r)"
    and "fetch (tr @ failed_attempts url (options_of oo) (baseDelayMs_of rc) 0 k
                 @ [Fetch url (options_of oo)]) = Inr res"
    and "status res \<noteq> 429" and "status res < 500" and "ok res"
    and "res_json res = Inr v"
  shows "requestJSON fetch url oo rc tr =
           (Inr v,
            tr @ failed_attempts url (options_of oo) (baseDelayMs_of rc) 0 k
               @ [Fetch url (options_of oo)])
         \<and> calls (snd (requestJSON fetch url oo rc tr)) = calls tr + (k + 1)"
proof -
  let ?opts = "options_of oo" and ?b = "baseDelayMs_of rc"
  have skip: "requestJSON_loop fetch url ?opts (retries_of rc) ?b 0 tr =
      requestJSON_loop fetch url ?opts (retries_of rc) ?b k (tr @ failed_attempts url ?opts ?b 0 k)"
    using assms(1,2) by (rule requestJSON_skip)
  have last: "requestJSON_loop fetch url ?opts (retries_of rc) ?b k (tr @ failed_attempts url ?opts ?b 0 k) =
      (Returned v, (tr @ failed_attempts url ?opts ?b 0 k) @ [Fetch url ?opts])"
    using assms(1,3-)
    by (intro loop_success [where fetch = fetch and res = res]) simp_all
  have eq: "requestJSON fetch url oo rc tr =
      (Inr v, tr @ failed_attempts url ?opts ?b 0 k @ [Fetch url ?opts])"
    unfolding requestJSON_def skip last by simp
  show ?thesis by (simp add: eq)
qed

theorem requestJSON_retry_then_success_witness:
  "requestJSON
       (scripted [Inr \<lparr>status = 500, ok = False, res_text = Inr ''Internal Server Error'',
                       res_json = Inl ''no json''\<rparr>,
                  Inr \<lparr>status = 200, ok = True, res_text = Inr '''',
                       res_json = Inr (JObj [(''success'', JBool True)])\<rparr>]
          (Inl ''no further answer''))
       ''https://api.example.com/data'' (Some no_options)
       (Some \<lparr>retries = Some 5, baseDelayMs = Some 10\<rparr>) [] =
     (Inr (JObj [(''success'', JBool True)]),
      [Fetch ''https://api.example.com/data'' no_options, Sleep 10,
       Fetch ''https://api.example.com/data'' no_options])"
  using requestJSON_retry_then_success [where k = 1
      and rc = "Some \<lparr>retries = Some 5, baseDelayMs = Some 10\<rparr>" and tr = "[]"
      and oo = "Some no_options"
      and url = "''https://api.example.com/data''" and v = "JObj [(''success'', JBool True)]"
      and res = "\<lparr>status = 200, ok = True, res_text = Inr '''',
                       res_json = Inr (JObj [(''success'', JBool True)])\<rparr>"
      and fetch = "scripted [Inr \<lparr>status = 500, ok = False, res_text = Inr ''Internal Server Error'',
                       res_json = Inl ''no json''\<rparr>,
                  Inr \<lparr>status = 200, ok = True, res_text = Inr '''',
                       res_json = Inr (JObj [(''success'', JBool True)])\<rparr>]
          (Inl ''no further answer'')"]
  by (simp add: scripted_def retries_of_def baseDelayMs_of_def options_of_def failed_attempts_def)

text \<open>
  C5. The retry count \<open>R\<close> and the base delay \<open>b\<close> are the values given in the
  \<open>retryConfig\<close>, 5 and 400 taking the place of a value that is not given (or of both,
  without a \<open>retryConfig\<close>). After the retryable response to attempt \<open>i\<close> and before
  attempt \<open>i + 1\<close> the call asks for a delay of \<open>b * 2^i\<close>: the delays are \<open>b\<close>,
  \<open>2 * b\<close>, \<open>4 * b\<close>, ... And \<open>R\<close> is the bound: after \<open>R\<close> retried attempts the next one is
  the last, whatever its answer, with no delay and no call after it.
\<close>

theorem requestJSON_backoff_delays:
  assumes "rc = Some \<lparr>retries = given_retries, baseDelayMs = given_delay\<rparr>
           \<or> (rc = None \<and> given_retries = None \<and> given_delay = None)"
    and "R = (case given_retries of None \<Rightarrow> 5 | Some r \<Rightarrow> r)"
    and "b = (case given_delay of None \<Rightarrow> 400 | Some d \<Rightarrow> d)"
    and "int k \<le> R"
    and "\<forall>j<k. \<exists>r. fetch (tr @ concat (map (\<lambda>i. [Fetch url (options_of oo), Sleep (b * 2 ^ i)])
                                         [0..<j])
                          @ [Fetch url (options_of oo)]) = Inr r
            \<and> (status r = 429 \<or> 500 \<le> status r)"
  shows "(\<exists>rest. snd (requestJSON fetch url oo rc tr) =
            tr @ concat (map (\<lambda>i. [Fetch url (options_of oo), Sleep (b * 2 ^ i)]) [0..<k])
               @ Fetch url (options_of oo) # rest)
         \<and> take k (drop (length (sleeps tr)) (sleeps (snd (requestJSON fetch url oo rc tr)))) =
             map (\<lambda>i. b * 2 ^ i) [0..<k]
         \<and> (int k = R \<longrightarrow>
               sleeps (snd (requestJSON fetch url oo rc tr)) =
                 sleeps tr @ map (\<lambda>i. b * 2 ^ i) [0..<k]
               \<and> calls (snd (requestJSON fetch url oo rc tr)) = calls tr + (k + 1))"
proof -
  let ?opts = "options_of oo"
  have R: "retries_of rc = R" and b: "baseDelayMs_of rc = b"
    using assms(1-3) by (auto simp: retries_of_def baseDelayMs_of_def)
  have attempts: "failed_attempts url ?opts b 0 j =
      concat (map (\<lambda>i. [Fetch url ?opts, Sleep (b * 2 ^ i)]) [0..<j])" for j
    by (simp add: failed_attempts_def)
  have skip: "requestJSON_loop fetch url ?opts R b 0 tr =
      requestJSON_loop fetch url ?opts R b k (tr @ failed_attempts url ?opts b 0 k)"
    using requestJSON_skip [where rc = rc and k = k and fetch = fetch and tr = tr and url = url
        and oo = oo] assms(4,5)
    by (simp add: R b attempts)
  have run: "snd (requestJSON fetch url oo rc tr) =
      snd (requestJSON_loop fetch url ?opts R b k (tr @ failed_attempts url ?opts b 0 k))"
    by (simp add: snd_requestJSON R b skip)
  obtain rest where rest:
    "snd (requestJSON_loop fetch url ?opts R b k (tr @ failed_attempts url ?opts b 0 k)) =
       (tr @ failed_attempts url ?opts b 0 k) @ Fetch url ?opts # rest"
    using loop_first_call [OF assms(4)] by blast
  have prefix: "\<exists>rest. snd (requestJSON fetch url oo rc tr) =
            tr @ concat (map (\<lambda>i. [Fetch url ?opts, Sleep (b * 2 ^ i)]) [0..<k])
               @ Fetch url ?opts # rest"
    using rest by (simp add: run attempts)
  have delays: "take k (drop (length (sleeps tr)) (sleeps (snd (requestJSON fetch url oo rc tr)))) =
             map (\<lambda>i. b * 2 ^ i) [0..<k]"
    by (simp add: run rest sleeps_failed_attempts)
  have bound: "sleeps (snd (requestJSON fetch url oo rc tr)) =
                 sleeps tr @ map (\<lambda>i. b * 2 ^ i) [0..<k]
               \<and> calls (snd (requestJSON fetch url oo rc tr)) = calls tr + (k + 1)"
    if "int k = R"
    using loop_last_attempt [OF that, where fetch = fetch and url = url and opts = ?opts and b = b
        and tr = "tr @ failed_attempts url ?opts b 0 k"]
    by (simp add: run sleeps_failed_attempts)
  from prefix delays bound show ?thesis by blast
qed

theorem requestJSON_backoff_delays_witness:
  "sleeps (snd (requestJSON
       (always (Inr \<lparr>status = 500, ok = False, res_text = Inr ''Server Error'',
                     res_json = Inl ''no json''\<rparr>))
       ''https://api.example.com/data'' None None [])) = [400, 800, 1600, 3200, 6400]
   \<and> sleeps (snd (requestJSON
       (always (Inr \<lparr>status = 500, ok = False, res_text = Inr ''Server Error'',
                     res_json = Inl ''no json''\<rparr>))
       ''https://api.example.com/data'' None
       (Some \<lparr>retries = Some 2, baseDelayMs = Some 10\<rparr>) [])) = [10, 20]
   \<and> sleeps (snd (requestJSON
       (always (Inr \<lparr>status = 500, ok = False, res_text = Inr ''Server Error'',
                     res_json = Inl ''no json''\<rparr>))
       ''https://api.example.com/data'' None
       (Some \<lparr>retries = Some 1, baseDelayMs = None\<rparr>) [])) = [400]
   \<and> sleeps (snd (requestJSON
       (always (Inr \<lparr>status = 500, ok = False, res_text = Inr ''Server Error'',
                     res_json = Inl ''no json''\<rparr>))
       ''https://api.example.com/data'' None
       (Some \<lparr>retries = None, baseDelayMs = Some 1\<rparr>) [])) = [1, 2, 4, 8, 16]
   \<and> calls (snd (requestJSON
       (always (Inr \<lparr>status = 500, ok = False, res_text = Inr ''Server Error'',
                     res_json = Inl ''no json''\<rparr>))
       ''https://api.example.com/data'' None
       (Some \<lparr>retries = Some 7, baseDelayMs = Some 3\<rparr>) [])) = 8"
proof -
  let ?fetch = "always (Inr \<lparr>status = 500, ok = False, res_text = Inr ''Server Error'',
                     res_json = Inl ''no json''\<rparr>)"
  let ?url = "''https://api.example.com/data''"
  have retry: "\<exists>r. ?fetch t = Inr r \<and> (status r = 429 \<or> 500 \<le> status r)" for t
    by (simp add: always_def)
  have "sleeps (snd (requestJSON ?fetch ?url None None [])) = [400, 800, 1600, 3200, 6400]"
    using requestJSON_backoff_delays [where rc = None and given_retries = None
        and given_delay = None and R = 5 and b = 400 and k = 5 and fetch = ?fetch and tr = "[]"
        and url = ?url and oo = None] retry
    by (simp add: upt_rec)
  moreover have "sleeps (snd (requestJSON ?fetch ?url None
       (Some \<lparr>retries = Some 2, baseDelayMs = Some 10\<rparr>) [])) = [10, 20]"
    using requestJSON_backoff_delays [where rc = "Some \<lparr>retries = Some 2, baseDelayMs = Some 10\<rparr>"
        and given_retries = "Some 2" and given_delay = "Some 10" and R = 2 and b = 10 and k = 2
        and fetch = ?fetch and tr = "[]" and url = ?url and oo = None] retry
    by (simp add: upt_rec)
  moreover have "sleeps (snd (requestJSON ?fetch ?url None
       (Some \<lparr>retries = Some 1, baseDelayMs = None\<rparr>) [])) = [400]"
    using requestJSON_backoff_delays [where rc = "Some \<lparr>retries = Some 1, baseDelayMs = None\<rparr>"
        and given_retries = "Some 1" and given_delay = None and R = 1 and b = 400 and k = 1
        and fetch = ?fetch and tr = "[]" and url = ?url and oo = None] retry
    by (simp add: upt_rec)
  moreover have "sleeps (snd (requestJSON ?fetch ?url None
       (Some \<lparr>retries = None, baseDelayMs = Some 1\<rparr>) [])) = [1, 2, 4, 8, 16]"
    using requestJSON_backoff_delays [where rc = "Some \<lparr>retries = None, baseDelayMs = Some 1\<rparr>"
        and given_retries = None and given_delay = "Some 1" and R = 5 and b = 1 and k = 5
        and fetch = ?fetch and tr = "[]" and url = ?url and oo = None] retry
    by (simp add: upt_rec)
  moreover have "calls (snd (requestJSON ?fetch ?url None
       (Some \<lparr>retries = Some 7, baseDelayMs = Some 3\<rparr>) [])) = 8"
    using requestJSON_backoff_delays [where rc = "Some \<lparr>retries = Some 7, baseDelayMs = Some 3\<rparr>"
        and given_retries = "Some 7" and given_delay = "Some 3" and R = 7 and b = 3 and k = 7
        and fetch = ?fetch and tr = "[]" and url = ?url and oo = None] retry
    by simp
  ultimately show ?thesis by blast
qed

text \<open>
  C6. With a retry count that is not negative the loop is never left through its
  condition: the call rejects, or it resolves with the parsed body of the response to
  its last network call. (The function is total: the loop is defined by a terminating
  recursion.)
\<close>

theorem requestJSON_settles:
  assumes "0 \<le> retries_of rc"
  shows "fst (requestJSON_loop fetch url (options_of oo) (retries_of rc) (baseDelayMs_of rc) 0 tr)
           \<noteq> LoopExit
         \<and> ((\<exists>e. fst (requestJSON fetch url oo rc tr) = Inl e)
            \<or> (\<exists>res v. fetch (snd (requestJSON fetch url oo rc tr)) = Inr res \<and> ok res
                  \<and> res_json res = Inr v \<and> fst (requestJSON fetch url oo rc tr) = Inr v))"
proof -
  have "case requestJSON_loop fetch url (options_of oo) (retries_of rc) (baseDelayMs_of rc) 0 tr of
           (Returned v, tr') \<Rightarrow> (\<exists>res. fetch tr' = Inr res \<and> ok res \<and> res_json res = Inr v)
         | (Thrown e, tr') \<Rightarrow> True
         | (LoopExit, tr') \<Rightarrow> False"
    using assms by (intro loop_settles) simp
  then show ?thesis
    by (auto simp: requestJSON_def split: prod.splits completion.splits)
qed

theorem requestJSON_settles_witness:
  "fst (requestJSON_loop
         (always (Inr \<lparr>status = 200, ok = True, res_text = Inl (),
                       res_json = Inr (JObj [(''id'', JNum (Finite 1))])\<rparr>))
         ''https://api.example.com/data'' no_options 0 400 0 []) = Returned (JObj [(''id'', JNum (Finite 1))])
   \<and> fst (requestJSON
         (always (Inr \<lparr>status = 200, ok = True, res_text = Inl (),
                       res_json = Inr (JObj [(''id'', JNum (Finite 1))])\<rparr>))
         ''https://api.example.com/data'' None
         (Some \<lparr>retries = Some 0, baseDelayMs = None\<rparr>) []) = Inr (JObj [(''id'', JNum (Finite 1))])"
  using requestJSON_settles [where rc = "Some \<lparr>retries = Some 0, baseDelayMs = None\<rparr>"
      and oo = None and tr = "[]" and url = "''https://api.example.com/data''"
      and fetch = "always (Inr \<lparr>status = 200, ok = True, res_text = Inl (),
                       res_json = Inr (JObj [(''id'', JNum (Finite 1))])\<rparr>)"]
  by (simp add: always_def retries_of_def baseDelayMs_of_def options_of_def requestJSON_def
      requestJSON_loop.simps)

section \<open>Chunks\<close>

text \<open>
  \<open>ceil_div\<close> is the ceiling of the quotient, and the chunks of a list are not empty,
  are no longer than the chunk size, and make up the list again in order.
\<close>

lemma ceil_div_0 [simp]: "ceil_div 0 d = 0"
  by (cases d) (simp_all add: ceil_div_def)

lemma ceil_div_bounds:
  assumes "0 < d"
  shows "n \<le> ceil_div n d * d" and "n = 0 \<or> (ceil_div n d - 1) * d < n"
proof -
  have "(n + d - 1) mod d < d" using assms by simp
  moreover have "(n + d - 1) div d * d + (n + d - 1) mod d = n + d - 1" by simp
  ultimately have "n + d - 1 < (n + d - 1) div d * d + d" by linarith
  then show "n \<le> ceil_div n d * d" by (simp add: ceil_div_def)
next
  show "n = 0 \<or> (ceil_div n d - 1) * d < n"
  proof (cases "n = 0")
    case False
    have "(n + d - 1) div d * d \<le> n + d - 1" by simp
    moreover from False assms have "1 \<le> (n + d - 1) div d"
      by (simp add: Suc_le_eq div_greater_zero_iff)
    ultimately have "((n + d - 1) div d - 1) * d + d \<le> n + d - 1"
      by (simp add: diff_mult_distrib)
    with False assms show ?thesis by (simp add: ceil_div_def)
  qed simp
qed

lemma ceil_div_ceiling:
  assumes "0 < d"
  shows "int (ceil_div n d) = \<lceil>real n / real d\<rceil>"
proof (rule sym, rule ceiling_unique)
  from ceil_div_bounds(1) [OF assms, of n]
  have "real n \<le> real (ceil_div n d * d)" using of_nat_le_iff by blast
  with assms show "real n / real d \<le> real_of_int (int (ceil_div n d))"
    by (simp add: divide_le_eq)
next
  show "real_of_int (int (ceil_div n d)) - 1 < real n / real d"
  proof (cases "n = 0")
    case True
    then show ?thesis by simp
  next
    case False
    with ceil_div_bounds(2) [OF assms, of n] have lt: "(ceil_div n d - 1) * d < n" by simp
    from False assms have pos: "1 \<le> ceil_div n d"
      by (simp add: ceil_div_def Suc_le_eq div_greater_zero_iff)
    from lt have "real ((ceil_div n d - 1) * d) < real n" using of_nat_less_iff by blast
    with pos assms show ?thesis
      by (simp add: less_divide_eq)
  qed
qed

lemma chunk_Nil [simp]: "chunk [] sz = []"
  by (simp add: chunk_def)

lemma length_chunk [simp]: "length (chunk arr sz) = ceil_div (length arr) sz"
  by (simp add: chunk_def)

lemma concat_slices:
  "concat (map (\<lambda>i. slice arr (i * sz) ((i + 1) * sz)) [0..<m]) = take (m * sz) arr"
proof (induction m)
  case 0
  then show ?case by simp
next
  case (Suc m)
  have "slice arr (m * sz) ((m + 1) * sz) = take sz (drop (m * sz) arr)"
    by (simp add: slice_def)
  moreover have "take (Suc m * sz) arr = take (m * sz) arr @ take sz (drop (m * sz) arr)"
    using take_add [of "m * sz" sz arr] by (simp add: add.commute)
  ultimately show ?case using Suc.IH by simp
qed

lemma concat_chunk:
  assumes "0 < sz"
  shows "concat (chunk arr sz) = arr"
  using ceil_div_bounds(1) [OF assms, of "length arr"]
  unfolding chunk_def concat_slices by simp

lemma chunk_sizes:
  assumes "0 < sz" and "grp \<in> set (chunk arr sz)"
  shows "0 < length grp \<and> length grp \<le> sz"
proof -
  from assms(2) obtain i where i: "i < ceil_div (length arr) sz"
    and grp: "grp = slice arr (i * sz) ((i + 1) * sz)"
    by (auto simp: chunk_def)
  from i have "length arr \<noteq> 0" by (cases "length arr = 0") simp_all
  with ceil_div_bounds(2) [OF assms(1), of "length arr"]
  have "(ceil_div (length arr) sz - 1) * sz < length arr" by simp
  moreover from i have "i \<le> ceil_div (length arr) sz - 1" by simp
  then have "i * sz \<le> (ceil_div (length arr) sz - 1) * sz"
    by (rule mult_le_mono1)
  ultimately have "i * sz < length arr" by (rule le_less_trans [rotated])
  with assms(1) show ?thesis by (simp add: grp slice_def)
qed

section \<open>Properties of the batched operations\<close>

lemma served_requestJSON:
  assumes "served fetch (tr @ [Fetch url opts]) = Some xs"
  shows "\<exists>json recs. requestJSON fetch url (Some opts) None tr = (Inr json, tr @ [Fetch url opts])
           \<and> getProp json ''records'' = Some recs
           \<and> or_else recs (JArr []) = JArr xs"
proof -
  from assms obtain res json recs where
    res: "fetch (tr @ [Fetch url opts]) = Inr res"
      "status res \<noteq> 429" "status res < 500" "ok res" "res_json res = Inr json"
    and recs: "getProp json ''records'' = Some recs" "or_else recs (JArr []) = JArr xs"
    by (auto simp: served_def split: sum.splits if_splits option.splits jsval.splits)
  have "requestJSON_loop fetch url opts 5 400 0 tr = (Returned json, tr @ [Fetch url opts])"
    using res by (intro loop_success [where res = res]) simp_all
  then have "requestJSON fetch url (Some opts) None tr = (Inr json, tr @ [Fetch url opts])"
    by (simp add: requestJSON_def options_of_def retries_of_def baseDelayMs_of_def)
  with recs show ?thesis by blast
qed

lemma createMany_loop_served:
  assumes "\<forall>i<length groups.
             served fetch (tr @ concat (map (\<lambda>g. [create_call pf c table g, Sleep (politeDelayMs c)])
                                         (take i groups))
                             @ [create_call pf c table (groups ! i)]) = Some (ys i)"
  shows "createMany_loop fetch pf c table groups out tr =
           (Inr (out @ concat (map ys [0..<length groups])),
            tr @ concat (map (\<lambda>g. [create_call pf c table g, Sleep (politeDelayMs c)]) groups))"
  using assms
proof (induction groups arbitrary: out tr ys)
  case Nil
  then show ?case by simp
next
  case (Cons g groups)
  let ?ev = "\<lambda>g. [create_call pf c table g, Sleep (politeDelayMs c)]"
  let ?url = "API c @ ''/'' @ encodeURIComponent pf table"
  let ?opts = "\<lparr>http_method = Some ''POST'', headers = HEADERS c,
                 body = Some (JSON_stringify pf (JObj [(''records'', JArr g)]))\<rparr>"
  have call: "create_call pf c table g = Fetch ?url ?opts"
    by (simp add: create_call_def)
  from Cons.prems [rule_format, of 0]
  have "served fetch (tr @ [Fetch ?url ?opts]) = Some (ys 0)"
    by (simp add: call)
  then obtain json recs where
    rq: "requestJSON fetch ?url (Some ?opts) None tr = (Inr json, tr @ [Fetch ?url ?opts])"
    and recs: "getProp json ''records'' = Some recs" "or_else recs (JArr []) = JArr (ys 0)"
    using served_requestJSON by blast
  have rest: "\<forall>i<length groups.
             served fetch ((tr @ ?ev g) @ concat (map ?ev (take i groups))
                             @ [create_call pf c table (groups ! i)]) = Some ((ys \<circ> Suc) i)"
  proof (intro allI impI)
    fix i assume "i < length groups"
    then have "Suc i < length (g # groups)" by simp
    from Cons.prems [rule_format, OF this] show
      "served fetch ((tr @ ?ev g) @ concat (map ?ev (take i groups))
                             @ [create_call pf c table (groups ! i)]) = Some ((ys \<circ> Suc) i)"
      by simp
  qed
  have "createMany_loop fetch pf c table (g # groups) out tr =
          createMany_loop fetch pf c table groups (out @ ys 0) (tr @ ?ev g)"
    unfolding createMany_loop.simps Let_def rq by (simp add: recs call)
  also have "\<dots> = (Inr ((out @ ys 0) @ concat (map (ys \<circ> Suc) [0..<length groups])),
                    (tr @ ?ev g) @ concat (map ?ev groups))"
    using rest by (rule Cons.IH)
  finally show ?case
    by (simp add: map_upt_Suc comp_def del: upt_Suc createMany_loop.simps)
qed

lemma calls_create_calls [simp]:
  "calls (concat (map (\<lambda>g. [create_call pf c table g, Sleep d]) groups)) = length groups"
  by (induction groups) (simp_all add: create_call_def)

lemma sleeps_create_calls [simp]:
  "sleeps (concat (map (\<lambda>g. [create_call pf c table g, Sleep d]) groups)) =
     replicate (length groups) d"
  by (induction groups) (simp_all add: create_call_def)

text \<open>
  C9, as the code has it. On a store that answers every batch at once with a success
  response, \<open>createMany\<close> splits the \<open>n\<close> records into \<open>ceil (n / 10)\<close> batches of at
  most 10 records, in order, makes exactly one POST for every batch (two calls for
  eleven records), asks for the polite delay of 120 ms after every batch, also after
  the last one, and resolves with the records the responses returned, in the order of
  the batches. Here \<open>ys i\<close> is what the response to batch \<open>i\<close> carries.
\<close>

theorem createMany_batches:
  assumes "\<forall>i<length (chunk records 10).
             served fetch
               (tr @ concat (map (\<lambda>g. [create_call pf (cfg base tok strict) table g, Sleep 120])
                              (take i (chunk records 10)))
                   @ [create_call pf (cfg base tok strict) table (chunk records 10 ! i)])
               = Some (ys i)"
  shows "createMany fetch pf (cfg base tok strict) table records tr =
           (Inr (concat (map ys [0..<length (chunk records 10)])),
            tr @ concat (map (\<lambda>g. [create_call pf (cfg base tok strict) table g, Sleep 120])
                          (chunk records 10)))
         \<and> length (chunk records 10) = ceil_div (length records) 10
         \<and> concat (chunk records 10) = records
         \<and> (\<forall>g\<in>set (chunk records 10). 0 < length g \<and> length g \<le> 10)
         \<and> calls (snd (createMany fetch pf (cfg base tok strict) table records tr)) =
             calls tr + ceil_div (length records) 10
         \<and> sleeps (snd (createMany fetch pf (cfg base tok strict) table records tr)) =
             sleeps tr @ replicate (ceil_div (length records) 10) 120"
proof -
  let ?c = "cfg base tok strict"
  have lim: "batchSize ?c = 10" "politeDelayMs ?c = 120"
    by (simp_all add: cfg_def)
  have run: "createMany fetch pf ?c table records tr =
           (Inr (concat (map ys [0..<length (chunk records 10)])),
            tr @ concat (map (\<lambda>g. [create_call pf ?c table g, Sleep 120]) (chunk records 10)))"
    using createMany_loop_served [where groups = "chunk records 10" and c = ?c and out = "[]"
        and fetch = fetch and tr = tr and pf = pf and table = table and ys = ys] assms
    by (simp add: createMany_def lim)
  have sizes: "\<forall>g\<in>set (chunk records 10). 0 < length g \<and> length g \<le> 10"
    using chunk_sizes [where sz = 10 and arr = records] by simp
  have whole: "concat (chunk records 10) = records"
    by (simp add: concat_chunk)
  show ?thesis
    using sizes whole by (simp add: run)
qed

theorem createMany_batches_witness:
  "createMany
     (always (Inr \<lparr>status = 200, ok = True, res_text = Inl (),
                   res_json = Inr (JObj [(''records'', JArr [JObj [(''id'', JStr ''rec1'')]])])\<rparr>))
     example_platform (cfg ''app1'' ''key1'' True)
     ''leads'' (replicate 11 (JObj [(''fields'', JObj [])])) [] =
   (Inr [JObj [(''id'', JStr ''rec1'')], JObj [(''id'', JStr ''rec1'')]],
    [create_call example_platform
       (cfg ''app1'' ''key1'' True) ''leads'' (replicate 10 (JObj [(''fields'', JObj [])])),
     Sleep 120,
     create_call example_platform
       (cfg ''app1'' ''key1'' True) ''leads'' [JObj [(''fields'', JObj [])]],
     Sleep 120])
   \<and> calls (snd (createMany
     (always (Inr \<lparr>status = 200, ok = True, res_text = Inl (),
                   res_json = Inr (JObj [(''records'', JArr [JObj [(''id'', JStr ''rec1'')]])])\<rparr>))
     example_platform (cfg ''app1'' ''key1'' True)
     ''leads'' (replicate 11 (JObj [(''fields'', JObj [])])) [])) = 2"
proof -
  let ?fetch = "always (Inr \<lparr>status = 200, ok = True, res_text = Inl (),
      res_json = Inr (JObj [(''records'', JArr [JObj [(''id'', JStr ''rec1'')]])])\<rparr>)"
  let ?pf = "example_platform"
  let ?c = "cfg ''app1'' ''key1'' True"
  let ?records = "replicate 11 (JObj [(''fields'', JObj [])])"
  have groups: "chunk ?records 10 =
      [replicate 10 (JObj [(''fields'', JObj [])]), [JObj [(''fields'', JObj [])]]]"
    by (simp add: chunk_def ceil_div_def slice_def upt_rec)
  have answers: "\<forall>i<length (chunk ?records 10).
      served ?fetch
        ([] @ concat (map (\<lambda>g. [create_call ?pf ?c ''leads'' g, Sleep 120])
                        (take i (chunk ?records 10)))
            @ [create_call ?pf ?c ''leads'' (chunk ?records 10 ! i)])
        = Some [JObj [(''id'', JStr ''rec1'')]]"
    by (simp add: always_def served_def or_else_def)
  show ?thesis
    using createMany_batches [of ?records ?fetch "[]" ?pf "''app1''" "''key1''" True "''leads''"
        "\<lambda>i. [JObj [(''id'', JStr ''rec1'')]]", OF answers]
    unfolding groups by (simp add: upt_rec ceil_div_def create_call_def)
qed

text \<open>
  C9, as the claim has it, counts one network call for every batch whatever the store
  answers. A batch that is first answered with 429 is sent again by \<open>requestJSON\<close>
  after its backoff delay: eleven records then take three calls, not two, and a delay
  of 400 ms comes before the two polite delays.
\<close>

theorem createMany_retry_counterexample:
  "calls (snd (createMany
     (scripted
        [Inr \<lparr>status = 429, ok = False, res_text = Inr ''Rate Limited'', res_json = Inl ()\<rparr>]
        (Inr \<lparr>status = 200, ok = True, res_text = Inl (),
              res_json = Inr (JObj [(''records'', JArr [JObj [(''id'', JStr ''rec1'')]])])\<rparr>))
     example_platform (cfg ''app1'' ''key1'' True)
     ''leads'' (replicate 11 (JObj [(''fields'', JObj [])])) [])) = 3
   \<and> sleeps (snd (createMany
     (scripted
        [Inr \<lparr>status = 429, ok = False, res_text = Inr ''Rate Limited'', res_json = Inl ()\<rparr>]
        (Inr \<lparr>status = 200, ok = True, res_text = Inl (),
              res_json = Inr (JObj [(''records'', JArr [JObj [(''id'', JStr ''rec1'')]])])\<rparr>))
     example_platform (cfg ''app1'' ''key1'' True)
     ''leads'' (replicate 11 (JObj [(''fields'', JObj [])])) [])) = [400, 120, 120]
   \<and> ceil_div (length (replicate 11 (JObj [(''fields'', JObj [])]))) 10 = 2"
proof -
  have "chunk (replicate 11 (JObj [(''fields'', JObj [])])) 10 =
      [replicate 10 (JObj [(''fields'', JObj [])]), [JObj [(''fields'', JObj [])]]]"
    by (simp add: chunk_def ceil_div_def slice_def upt_rec)
  then show ?thesis
    by (simp add: createMany_def cfg_def requestJSON_def requestJSON_loop.simps retries_of_def
        baseDelayMs_of_def options_of_def scripted_def or_else_def ceil_div_def Let_def)
qed

text \<open>
  C10. With an empty list of records \<open>createMany\<close> and \<open>updateMany\<close> make no network
  call, ask for no delay, and resolve with the empty array.
\<close>

theorem empty_batches:
  "createMany fetch pf c table [] tr = (Inr [], tr)
   \<and> updateMany fetch pf c table [] tr = (Inr [], tr)
   \<and> calls (snd (createMany fetch pf c table [] tr)) = calls tr
   \<and> sleeps (snd (createMany fetch pf c table [] tr)) = sleeps tr
   \<and> calls (snd (updateMany fetch pf c table [] tr)) = calls tr
   \<and> sleeps (snd (updateMany fetch pf c table [] tr)) = sleeps tr"
  by (simp add: createMany_def updateMany_def)

section \<open>Properties of findRecordsByKeys\<close>

lemma getProp_defined:
  assumes "v \<noteq> JNull" and "v \<noteq> JUndefined"
  shows "getProp v k = Some (read_prop v k)"
  using assms by (cases v) (simp_all add: read_prop_def)

lemma key_entries_Nil [simp]: "key_entries pf keyField [] = []"
  by (simp add: key_entries_def)

lemma key_entries_Cons:
  "key_entries pf keyField (rec # recs) =
     (if truthy (key_of keyField rec)
      then (text_of pf (key_of keyField rec), read_prop rec ''id'') # key_entries pf keyField recs
      else key_entries pf keyField recs)"
  by (simp add: key_entries_def)

lemma key_entries_append [simp]:
  "key_entries pf keyField (xs @ ys) = key_entries pf keyField xs @ key_entries pf keyField ys"
  by (simp add: key_entries_def)

lemma index_records_indexable:
  assumes "\<forall>rec\<in>set recs. indexable pf keyField rec"
  shows "index_records pf keyField recs m =
           Some (fold (\<lambda>(k, v). AList.update k v) (key_entries pf keyField recs) m)"
  using assms
proof (induction recs arbitrary: m)
  case Nil
  then show ?case by simp
next
  case (Cons rec recs)
  then have ix: "indexable pf keyField rec" by simp
  then have obj: "rec \<noteq> JNull" "rec \<noteq> JUndefined"
    by (auto simp: indexable_def)
  have flds: "getProp rec ''fields'' = Some (read_prop rec ''fields'')"
    and rid: "getProp rec ''id'' = Some (read_prop rec ''id'')"
    using obj by (simp_all add: getProp_defined)
  have key: "(if read_prop rec ''fields'' = JNull \<or> read_prop rec ''fields'' = JUndefined
              then Some JUndefined else getProp (read_prop rec ''fields'') keyField)
             = Some (key_of keyField rec)"
    by (auto simp: key_of_def getProp_defined)
  have key_text: "js_String pf (key_of keyField rec) = Some (text_of pf (key_of keyField rec))"
    if "truthy (key_of keyField rec)"
    using ix that by (auto simp: indexable_def text_of_def)
  from Cons show ?case
    by (simp add: flds rid key key_entries_Cons key_text)
qed

lemma map_of_fold_update:
  "map_of (fold (\<lambda>(k, v). AList.update k v) es m) = map_of m ++ map_of (rev es)"
proof (induction es arbitrary: m)
  case Nil
  then show ?case by simp
next
  case (Cons e es)
  obtain k v where e: "e = (k, v)" by (cases e)
  have "map_of (fold (\<lambda>(k, v). AList.update k v) (e # es) m) =
          map_of (AList.update k v m) ++ map_of (rev es)"
    by (simp add: e Cons.IH)
  also have "\<dots> = (map_of m ++ [k \<mapsto> v]) ++ map_of (rev es)"
    by (simp add: update_conv')
  also have "\<dots> = map_of m ++ map_of (rev (e # es))"
    by (simp add: e)
  finally show ?case .
qed

lemma distinct_fold_update:
  assumes "distinct (map fst m)"
  shows "distinct (map fst (fold (\<lambda>(k, v). AList.update k v) es m))"
  using assms
proof (induction es arbitrary: m)
  case Nil
  then show ?case by simp
next
  case (Cons e es)
  then show ?case by (cases e) (simp add: distinct_update)
qed

lemma conditions_written:
  assumes "map (js_String pf) ks = map Some txts"
  shows "those (map (\<lambda>k. map_option
                             (\<lambda>quoted. ''{'' @ keyField @ ''} = '' @ [CHR 0x22] @ quoted
                                 @ [CHR 0x22])
                             (quote pf k)) ks)
           = Some (map (key_condition keyField) txts)"
  using assms
proof (induction ks arbitrary: txts)
  case Nil
  then show ?case by simp
next
  case (Cons k ks)
  then obtain t ts where txts: "txts = t # ts" and t: "js_String pf k = Some t"
    and ts: "map (js_String pf) ks = map Some ts"
    by (cases txts) auto
  from Cons.IH [OF ts] show ?case
    by (simp add: txts t quote_def key_condition_def)
qed

lemma findRecordsByKeys_loop_served:
  assumes "\<forall>i<length groups.
             served fetch (tr @ map (query_call pf c table) (take (Suc i) groups)) = Some (ys i)"
    and "\<forall>i<length groups. \<forall>rec\<in>set (ys i). indexable pf keyField rec"
  shows "findRecordsByKeys_loop fetch pf c table keyField groups m tr =
           (Inr (fold (\<lambda>(k, v). AList.update k v)
                   (key_entries pf keyField (concat (map ys [0..<length groups]))) m),
            tr @ map (query_call pf c table) groups)"
  using assms
proof (induction groups arbitrary: m tr ys)
  case Nil
  then show ?case by simp
next
  case (Cons g groups)
  let ?url = "API c @ ''/'' @ encodeURIComponent pf table @ ''?filterByFormula=''
                @ encodeURIComponent pf (''OR('' @ join '','' g @ '')'') @ ''&pageSize=100''"
  let ?opts = "\<lparr>http_method = None, headers = HEADERS c, body = None\<rparr>"
  let ?upd = "\<lambda>(k, v). AList.update k v"
  have call: "query_call pf c table g = Fetch ?url ?opts"
    by (simp add: query_call_def)
  from Cons.prems(1) [rule_format, of 0]
  have "served fetch (tr @ [Fetch ?url ?opts]) = Some (ys 0)"
    by (simp add: call)
  then obtain json recs where
    rq: "requestJSON fetch ?url (Some ?opts) None tr = (Inr json, tr @ [Fetch ?url ?opts])"
    and recs: "getProp json ''records'' = Some recs" "or_else recs (JArr []) = JArr (ys 0)"
    using served_requestJSON by blast
  from Cons.prems(2) [rule_format, of 0]
  have "\<forall>rec\<in>set (ys 0). indexable pf keyField rec" by simp
  then have idx: "index_records pf keyField (ys 0) m =
      Some (fold ?upd (key_entries pf keyField (ys 0)) m)"
    by (rule index_records_indexable)
  have rest1: "\<forall>i<length groups.
      served fetch ((tr @ [query_call pf c table g]) @ map (query_call pf c table) (take (Suc i) groups))
        = Some ((ys \<circ> Suc) i)"
  proof (intro allI impI)
    fix i assume "i < length groups"
    then have "Suc i < length (g # groups)" by simp
    from Cons.prems(1) [rule_format, OF this]
    show "served fetch ((tr @ [query_call pf c table g])
             @ map (query_call pf c table) (take (Suc i) groups)) = Some ((ys \<circ> Suc) i)"
      by simp
  qed
  have rest2: "\<forall>i<length groups. \<forall>rec\<in>set ((ys \<circ> Suc) i). indexable pf keyField rec"
    using Cons.prems(2) by auto
  have "findRecordsByKeys_loop fetch pf c table keyField (g # groups) m tr =
          findRecordsByKeys_loop fetch pf c table keyField groups
            (fold ?upd (key_entries pf keyField (ys 0)) m) (tr @ [query_call pf c table g])"
    unfolding findRecordsByKeys_loop.simps Let_def rq by (simp add: recs idx call)
  also have "\<dots> = (Inr (fold ?upd (key_entries pf keyField (concat (map (ys \<circ> Suc) [0..<length groups])))
                          (fold ?upd (key_entries pf keyField (ys 0)) m)),
                    (tr @ [query_call pf c table g]) @ map (query_call pf c table) groups)"
    using rest1 rest2 by (rule Cons.IH)
  finally show ?case
    by (simp add: map_upt_Suc comp_def del: upt_Suc findRecordsByKeys_loop.simps)
qed

lemma calls_query_calls [simp]: "calls (map (query_call pf c table) groups) = length groups"
  by (induction groups) (simp_all add: query_call_def)

text \<open>
  C7, as the code has it. \<open>findRecordsByKeys\<close> drops the falsy keys, writes one
  equality condition for every key that is left (\<open>txts\<close> are the strings of these
  keys), and splits the conditions, in order, into groups of 1 to 20. On a store that
  answers every query at once with a success response whose records can be indexed,
  it makes one query (a GET) for every group, that is \<open>ceil (t / 20)\<close> calls for \<open>t\<close>
  truthy keys, and resolves with a map that has one entry for every stringified
  truthy key value among the records returned, whose value is the identifier of the
  last such record. Here \<open>ys i\<close> is what the response to group \<open>i\<close> carries, and the key
  field is not the name of a member of \<open>Object.prototype\<close>.
\<close>

theorem findRecordsByKeys_index:
  assumes "\<not> Object_prototype_member keyField"
    and "map (js_String pf) (filter truthy keys) = map Some txts"
    and "\<forall>i<length (chunk (map (key_condition keyField) txts) 20).
           served fetch
             (tr @ map (query_call pf c table)
                     (take (Suc i) (chunk (map (key_condition keyField) txts) 20)))
             = Some (ys i)"
    and "\<forall>i<length (chunk (map (key_condition keyField) txts) 20).
           \<forall>rec\<in>set (ys i). indexable pf keyField rec"
  shows "case findRecordsByKeys fetch pf c table keyField keys tr of
           (Inl e, tr') \<Rightarrow> False
         | (Inr m, tr') \<Rightarrow>
             tr' = tr @ map (query_call pf c table) (chunk (map (key_condition keyField) txts) 20)
             \<and> calls tr' = calls tr + ceil_div (length (filter truthy keys)) 20
             \<and> concat (chunk (map (key_condition keyField) txts) 20) =
                 map (key_condition keyField) txts
             \<and> (\<forall>g\<in>set (chunk (map (key_condition keyField) txts) 20).
                   0 < length g \<and> length g \<le> 20)
             \<and> distinct (map fst m)
             \<and> map_of m =
                 map_of (rev (key_entries pf keyField
                   (concat (map ys [0..<ceil_div (length (filter truthy keys)) 20]))))"
proof -
  let ?groups = "chunk (map (key_condition keyField) txts) 20"
  let ?entries = "key_entries pf keyField (concat (map ys [0..<length ?groups]))"
  let ?m = "fold (\<lambda>(k, v). AList.update k v) ?entries []"
  have len: "length txts = length (filter truthy keys)"
    using assms(2) by (metis length_map)
  have parts: "those (map (\<lambda>k. map_option
                             (\<lambda>quoted. ''{'' @ keyField @ ''} = '' @ [CHR 0x22] @ quoted
                                 @ [CHR 0x22])
                             (quote pf k)) (filter truthy keys))
                 = Some (map (key_condition keyField) txts)"
    using assms(2) by (rule conditions_written)
  have "findRecordsByKeys_loop fetch pf c table keyField ?groups [] tr =
          (Inr ?m, tr @ map (query_call pf c table) ?groups)"
    using assms(3,4) by (rule findRecordsByKeys_loop_served)
  then have run: "findRecordsByKeys fetch pf c table keyField keys tr =
      (Inr ?m, tr @ map (query_call pf c table) ?groups)"
    unfolding findRecordsByKeys_def parts by simp
  have sizes: "\<forall>g\<in>set ?groups. 0 < length g \<and> length g \<le> 20"
    using chunk_sizes [where sz = 20 and arr = "map (key_condition keyField) txts"]
    by simp
  have whole: "concat ?groups = map (key_condition keyField) txts"
    by (simp add: concat_chunk)
  have dist: "distinct (map fst ?m)"
    by (rule distinct_fold_update) simp
  have look: "map_of ?m = map_of (rev ?entries)"
    by (simp add: map_of_fold_update)
  show ?thesis
    using sizes whole dist look by (simp add: run len)
qed

theorem findRecordsByKeys_index_witness:
  "case findRecordsByKeys
          (scripted
             [Inr \<lparr>status = 200, ok = True, res_text = Inl (),
                   res_json = Inr (JObj [(''records'', JArr
                     [JObj [(''id'', JStr ''rec1''), (''fields'', JObj [(''placeId'', JStr ''a'')])],
                      JObj [(''id'', JStr ''rec2''), (''fields'', JObj [(''placeId'', JNum (Finite 42))])]])])\<rparr>]
             (Inr \<lparr>status = 200, ok = True, res_text = Inl (),
                   res_json = Inr (JObj [(''records'', JArr
                     [JObj [(''id'', JStr ''rec3''), (''fields'', JObj [(''placeId'', JStr ''a'')])],
                      JObj [(''id'', JStr ''rec4''), (''fields'', JObj [])]])])\<rparr>))
          example_platform (cfg ''app1'' ''key1'' True) ''leads'' ''placeId''
          (JNull # replicate 21 (JStr ''k'') @ [JStr '''']) [] of
     (Inl e, tr') \<Rightarrow> False
   | (Inr m, tr') \<Rightarrow>
       calls tr' = 2 \<and> map_of m ''a'' = Some (JStr ''rec3'') \<and> map_of m ''42'' = Some (JStr ''rec2'')
       \<and> map_of m ''k'' = None"
proof -
  let ?fetch = "scripted
             [Inr \<lparr>status = 200, ok = True, res_text = Inl (),
                   res_json = Inr (JObj [(''records'', JArr
                     [JObj [(''id'', JStr ''rec1''), (''fields'', JObj [(''placeId'', JStr ''a'')])],
                      JObj [(''id'', JStr ''rec2''), (''fields'', JObj [(''placeId'', JNum (Finite 42))])]])])\<rparr>]
             (Inr \<lparr>status = 200, ok = True, res_text = Inl (),
                   res_json = Inr (JObj [(''records'', JArr
                     [JObj [(''id'', JStr ''rec3''), (''fields'', JObj [(''placeId'', JStr ''a'')])],
                      JObj [(''id'', JStr ''rec4''), (''fields'', JObj [])]])])\<rparr>)"
  let ?pf = "example_platform"
  let ?c = "cfg ''app1'' ''key1'' True"
  let ?keys = "JNull # replicate 21 (JStr ''k'') @ [JStr '''']"
  let ?txts = "replicate 21 ''k''"
  let ?cond = "key_condition ''placeId'' ''k''"
  let ?ys = "\<lambda>i::nat. if i = 0
       then [JObj [(''id'', JStr ''rec1''), (''fields'', JObj [(''placeId'', JStr ''a'')])],
             JObj [(''id'', JStr ''rec2''), (''fields'', JObj [(''placeId'', JNum (Finite 42))])]]
       else [JObj [(''id'', JStr ''rec3''), (''fields'', JObj [(''placeId'', JStr ''a'')])],
             JObj [(''id'', JStr ''rec4''), (''fields'', JObj [])]]"
  have name: "\<not> Object_prototype_member ''placeId''"
    by (simp add: Object_prototype_member_def)
  have truthy_keys: "filter truthy ?keys = replicate 21 (JStr ''k'')"
    by simp
  have texts: "map (js_String ?pf) (filter truthy ?keys) = map Some ?txts"
    unfolding truthy_keys by simp
  have groups: "chunk (map (key_condition ''placeId'') ?txts) 20 = [replicate 20 ?cond, [?cond]]"
    by (simp add: chunk_def ceil_div_def slice_def upt_rec)
  have answers: "\<forall>i<length (chunk (map (key_condition ''placeId'') ?txts) 20).
      served ?fetch
        ([] @ map (query_call ?pf ?c ''leads'')
               (take (Suc i) (chunk (map (key_condition ''placeId'') ?txts) 20)))
        = Some (?ys i)"
    unfolding groups
    by (auto simp: less_Suc_eq numeral_2_eq_2 scripted_def served_def or_else_def query_call_def)
  have objects: "\<forall>i<length (chunk (map (key_condition ''placeId'') ?txts) 20).
      \<forall>rec\<in>set (?ys i). indexable ?pf ''placeId'' rec"
    by (simp add: indexable_def read_prop_def key_of_def)
  show ?thesis
    using findRecordsByKeys_index [where keyField = "''placeId''" and pf = ?pf and keys = ?keys
        and txts = ?txts and c = ?c and fetch = ?fetch and tr = "[]" and table = "''leads''"
        and ys = ?ys, OF name texts answers objects]
    unfolding truthy_keys
    by (auto simp: ceil_div_def upt_rec key_entries_def key_of_def read_prop_def text_of_def
        Number_toString_def digits.simps split: prod.splits sum.splits)
qed

text \<open>
  C7, as the claim has it, counts the calls from the number of keys given. With twenty
  keys and a \<open>null\<close> there are 21 keys, and the ceiling of 21 / 20 is 2, but only one
  group is left after the filter and one call is made.
\<close>

theorem findRecordsByKeys_falsy_key_counterexample:
  "calls (snd (findRecordsByKeys
          (always (Inr \<lparr>status = 200, ok = True, res_text = Inl (),
                        res_json = Inr (JObj [(''records'', JArr [])])\<rparr>))
          example_platform (cfg ''app1'' ''key1'' True) ''leads'' ''placeId''
          (replicate 20 (JStr ''k'') @ [JNull]) [])) = 1
   \<and> length (replicate 20 (JStr ''k'') @ [JNull]) = 21
   \<and> ceil_div (length (replicate 20 (JStr ''k'') @ [JNull])) 20 = 2"
proof -
  have conds: "those (map (\<lambda>k. map_option
                             (\<lambda>quoted. ''{'' @ ''placeId'' @ ''} = '' @ [CHR 0x22] @ quoted
                                 @ [CHR 0x22])
                             (quote example_platform k))
                  (filter truthy (replicate 20 (JStr ''k'') @ [JNull])))
        = Some (map (key_condition ''placeId'') (replicate 20 ''k''))"
    by (rule conditions_written) simp
  have "chunk (map (key_condition ''placeId'') (replicate 20 ''k'')) 20 =
        [replicate 20 (key_condition ''placeId'' ''k'')]"
    by (simp add: chunk_def ceil_div_def slice_def upt_rec)
  then show ?thesis
    unfolding findRecordsByKeys_def conds
    by (simp add: requestJSON_def requestJSON_loop.simps retries_of_def
        baseDelayMs_of_def options_of_def always_def or_else_def ceil_div_def Let_def)
qed

section \<open>Properties of upsertByKey\<close>

lemma success_requestJSON:
  assumes "fetch (tr @ [Fetch url opts]) = Inr res"
    and "status res \<noteq> 429" and "status res < 500" and "ok res" and "res_json res = Inr json"
  shows "requestJSON fetch url (Some opts) None tr = (Inr json, tr @ [Fetch url opts])"
proof -
  have "requestJSON_loop fetch url opts 5 400 0 tr = (Returned json, tr @ [Fetch url opts])"
    using assms by (intro loop_success [where res = res]) simp_all
  then show ?thesis
    by (simp add: requestJSON_def options_of_def retries_of_def baseDelayMs_of_def)
qed

lemma index_named_0: "0 < n \<Longrightarrow> index_named ''0'' n = Some 0"
  by (simp add: index_named_def upt_rec [of 0 n] digits.simps)

lemma first_of_array:
  "getProp (JArr xs) ''0'' = Some (case xs of [] \<Rightarrow> JUndefined | x # rest \<Rightarrow> x)"
  by (cases xs) (simp_all add: index_named_0, simp add: index_named_def)

lemma length_of_array:
  "getProp (JArr xs) ''length'' = Some (JNum (Finite (of_nat (length xs))))"
  by simp

lemma findAllByField_served:
  assumes "js_String pf val = Some val_text"
    and "served fetch (tr @ [lookup_call pf c table field val_text]) = Some xs"
  shows "findAllByField fetch pf c table field val tr =
           (Inr (JArr xs), tr @ [lookup_call pf c table field val_text])"
proof -
  let ?url = "API c @ ''/'' @ encodeURIComponent pf table @ ''?filterByFormula=''
              @ encodeURIComponent pf
                  (''{'' @ field @ ''} = '' @ [CHR 0x22] @ replace_quotes val_text @ [CHR 0x22])
              @ ''&pageSize=100''"
  let ?opts = "\<lparr>http_method = None, headers = HEADERS c, body = None\<rparr>"
  have call: "lookup_call pf c table field val_text = Fetch ?url ?opts"
    by (simp add: lookup_call_def)
  have quoted: "quote pf val = Some (replace_quotes val_text)"
    by (simp add: quote_def assms(1))
  from assms(2) obtain json recs where
    rq: "requestJSON fetch ?url (Some ?opts) None tr = (Inr json, tr @ [Fetch ?url ?opts])"
    and recs: "getProp json ''records'' = Some recs" "or_else recs (JArr []) = JArr xs"
    unfolding call using served_requestJSON by blast
  show ?thesis
    unfolding findAllByField_def quoted option.case Let_def rq by (simp add: recs call)
qed

lemma findOneByField_served:
  assumes "js_String pf val = Some val_text"
    and "served fetch (tr @ [lookup_call pf c table field val_text]) = Some xs"
    and "length xs \<le> 1 \<or> \<not> strictDuplicates c"
  shows "findOneByField fetch pf c table field val tr =
           (Inr (or_else (case xs of [] \<Rightarrow> JUndefined | x # rest \<Rightarrow> x) JNull),
            tr @ [lookup_call pf c table field val_text])"
proof -
  have fa: "findAllByField fetch pf c table field val tr =
           (Inr (JArr xs), tr @ [lookup_call pf c table field val_text])"
    using assms(1,2) by (rule findAllByField_served)
  from assms(3) have "\<not> ((1::rat) < of_nat (length xs) \<and> strictDuplicates c)"
    by auto
  then show ?thesis
    unfolding findOneByField_def fa
    by (auto simp add: first_of_array length_of_array simp del: getProp.simps)
qed

text \<open>
  C8, as the code has it, for a field dictionary that is an object and a key field
  that is not the name of a member of \<open>Object.prototype\<close>. (1) When \<open>fields[keyField]\<close>
  is falsy the call rejects with the \<open>Error\<close> \<open>Upsert missing <keyField>\<close> and makes no
  network call. (2) When the lookup finds a record, and it is the only one or strict
  duplicates are off, the call makes a PATCH to the address of that record's
  identifier, and resolves with the \<open>id\<close> of the body of the PATCH response. (3) When the
  lookup finds no record, the call makes a POST with the one new record and resolves
  with the \<open>id\<close> of the first element of \<open>records\<close> in the body of the response. In (2)
  and (3) the lookup, the PATCH and the POST are each answered at once with a success
  response, and the key value and the identifier have a string (\<open>key_text\<close>,
  \<open>id_text\<close>).
\<close>

theorem upsertByKey_cases:
  "(\<not> Object_prototype_member keyField
      \<and> getProp (JObj kvs) keyField = Some keyVal \<and> \<not> truthy keyVal \<longrightarrow>
      upsertByKey fetch pf c table keyField (JObj kvs) tr =
        (Inl (Error (''Upsert missing '' @ keyField)), tr))
   \<and> (\<not> Object_prototype_member keyField
        \<and> getProp (JObj kvs) keyField = Some keyVal \<and> truthy keyVal
        \<and> js_String pf keyVal = Some key_text
        \<and> served fetch (tr @ [lookup_call pf c table keyField key_text]) = Some (existing # others)
        \<and> truthy existing \<and> (others = [] \<or> \<not> strictDuplicates c)
        \<and> js_String pf (read_prop existing ''id'') = Some id_text
        \<and> fetch (tr @ [lookup_call pf c table keyField key_text,
                         patch_call pf c table id_text (JObj kvs)]) = Inr res
        \<and> status res \<noteq> 429 \<and> status res < 500 \<and> ok res \<and> res_json res = Inr json
        \<and> getProp json ''id'' = Some rid \<longrightarrow>
      upsertByKey fetch pf c table keyField (JObj kvs) tr =
        (Inr rid, tr @ [lookup_call pf c table keyField key_text,
                         patch_call pf c table id_text (JObj kvs)]))
   \<and> (\<not> Object_prototype_member keyField
        \<and> getProp (JObj kvs) keyField = Some keyVal \<and> truthy keyVal
        \<and> js_String pf keyVal = Some key_text
        \<and> served fetch (tr @ [lookup_call pf c table keyField key_text]) = Some []
        \<and> fetch (tr @ [lookup_call pf c table keyField key_text,
                         create_call pf c table [JObj [(''fields'', JObj kvs)]]]) = Inr res
        \<and> status res \<noteq> 429 \<and> status res < 500 \<and> ok res \<and> res_json res = Inr json
        \<and> getProp json ''records'' = Some recs \<and> getProp recs ''0'' = Some first
        \<and> getProp first ''id'' = Some rid \<longrightarrow>
      upsertByKey fetch pf c table keyField (JObj kvs) tr =
        (Inr rid, tr @ [lookup_call pf c table keyField key_text,
                         create_call pf c table [JObj [(''fields'', JObj kvs)]]]))"
proof (intro conjI impI)
  assume "\<not> Object_prototype_member keyField
      \<and> getProp (JObj kvs) keyField = Some keyVal \<and> \<not> truthy keyVal"
  then show "upsertByKey fetch pf c table keyField (JObj kvs) tr =
      (Inl (Error (''Upsert missing '' @ keyField)), tr)"
    by (auto simp: upsertByKey_def)
next
  let ?look = "lookup_call pf c table keyField key_text"
  let ?url = "API c @ ''/'' @ encodeURIComponent pf table @ ''/'' @ id_text"
  let ?opts = "\<lparr>http_method = Some ''PATCH'', headers = HEADERS c,
                 body = Some (JSON_stringify pf (JObj [(''fields'', JObj kvs)]))\<rparr>"
  assume a: "\<not> Object_prototype_member keyField
        \<and> getProp (JObj kvs) keyField = Some keyVal \<and> truthy keyVal
        \<and> js_String pf keyVal = Some key_text
        \<and> served fetch (tr @ [?look]) = Some (existing # others)
        \<and> truthy existing \<and> (others = [] \<or> \<not> strictDuplicates c)
        \<and> js_String pf (read_prop existing ''id'') = Some id_text
        \<and> fetch (tr @ [?look, patch_call pf c table id_text (JObj kvs)]) = Inr res
        \<and> status res \<noteq> 429 \<and> status res < 500 \<and> ok res \<and> res_json res = Inr json
        \<and> getProp json ''id'' = Some rid"
  have call: "patch_call pf c table id_text (JObj kvs) = Fetch ?url ?opts"
    by (simp add: patch_call_def)
  from a have key: "getProp (JObj kvs) keyField = Some keyVal" "truthy keyVal" by simp_all
  from a have one: "findOneByField fetch pf c table keyField keyVal tr = (Inr existing, tr @ [?look])"
    using findOneByField_served [where xs = "existing # others" and fetch = fetch and tr = tr
        and pf = pf and c = c and table = table and field = keyField and val = keyVal
        and val_text = key_text]
    by (auto simp: or_else_def)
  from a have eid: "getProp existing ''id'' = Some (read_prop existing ''id'')"
    by (intro getProp_defined) auto
  from a have idt: "js_String pf (read_prop existing ''id'') = Some id_text" by simp
  from a have "fetch ((tr @ [?look]) @ [Fetch ?url ?opts]) = Inr res"
    by (simp add: call)
  with a have rq: "requestJSON fetch ?url (Some ?opts) None (tr @ [?look]) =
      (Inr json, (tr @ [?look]) @ [Fetch ?url ?opts])"
    by (intro success_requestJSON [where res = res]) simp_all
  from a have rid: "getProp json ''id'' = Some rid" and ex: "truthy existing" by simp_all
  show "upsertByKey fetch pf c table keyField (JObj kvs) tr =
      (Inr rid, tr @ [?look, patch_call pf c table id_text (JObj kvs)])"
    unfolding upsertByKey_def Let_def
    by (simp add: key one ex eid idt rq [simplified] rid call del: getProp.simps)
next
  let ?look = "lookup_call pf c table keyField key_text"
  let ?url = "API c @ ''/'' @ encodeURIComponent pf table"
  let ?opts = "\<lparr>http_method = Some ''POST'', headers = HEADERS c,
                 body = Some (JSON_stringify pf
                          (JObj [(''records'', JArr [JObj [(''fields'', JObj kvs)]])]))\<rparr>"
  assume a: "\<not> Object_prototype_member keyField
        \<and> getProp (JObj kvs) keyField = Some keyVal \<and> truthy keyVal
        \<and> js_String pf keyVal = Some key_text
        \<and> served fetch (tr @ [?look]) = Some []
        \<and> fetch (tr @ [?look, create_call pf c table [JObj [(''fields'', JObj kvs)]]]) = Inr res
        \<and> status res \<noteq> 429 \<and> status res < 500 \<and> ok res \<and> res_json res = Inr json
        \<and> getProp json ''records'' = Some recs \<and> getProp recs ''0'' = Some first
        \<and> getProp first ''id'' = Some rid"
  have call: "create_call pf c table [JObj [(''fields'', JObj kvs)]] = Fetch ?url ?opts"
    by (simp add: create_call_def)
  from a have key: "getProp (JObj kvs) keyField = Some keyVal" "truthy keyVal" by simp_all
  from a have one: "findOneByField fetch pf c table keyField keyVal tr = (Inr JNull, tr @ [?look])"
    using findOneByField_served [where xs = "[]" and fetch = fetch and tr = tr
        and pf = pf and c = c and table = table and field = keyField and val = keyVal
        and val_text = key_text]
    by (auto simp: or_else_def)
  from a have "fetch ((tr @ [?look]) @ [Fetch ?url ?opts]) = Inr res"
    by (simp add: call)
  with a have rq: "requestJSON fetch ?url (Some ?opts) None (tr @ [?look]) =
      (Inr json, (tr @ [?look]) @ [Fetch ?url ?opts])"
    by (intro success_requestJSON [where res = res]) simp_all
  from a have got: "getProp json ''records'' = Some recs" "getProp recs ''0'' = Some first"
    "getProp first ''id'' = Some rid" by simp_all
  show "upsertByKey fetch pf c table keyField (JObj kvs) tr =
      (Inr rid, tr @ [?look, create_call pf c table [JObj [(''fields'', JObj kvs)]]])"
    unfolding upsertByKey_def Let_def
    by (simp add: key one rq [simplified] got call del: getProp.simps)
qed

theorem upsertByKey_cases_witness:
  "upsertByKey (always (Inl ())) example_platform (cfg ''app1'' ''key1'' True) ''leads'' ''placeId''
     (JObj [(''placeId'', JStr ''''), (''companyName'', JStr ''Acme'')]) [] =
     (Inl (Error ''Upsert missing placeId''), [])
   \<and> upsertByKey
       (scripted
          [Inr \<lparr>status = 200, ok = True, res_text = Inl (),
                res_json = Inr (JObj [(''records'', JArr
                  [JObj [(''id'', JStr ''rec1''), (''fields'', JObj [(''placeId'', JStr ''p1'')])]])])\<rparr>]
          (Inr \<lparr>status = 200, ok = True, res_text = Inl (),
                res_json = Inr (JObj [(''id'', JStr ''rec1''),
                                      (''fields'', JObj [(''placeId'', JStr ''p1'')])])\<rparr>))
       example_platform (cfg ''app1'' ''key1'' True) ''leads'' ''placeId''
       (JObj [(''placeId'', JStr ''p1'')]) [] =
     (Inr (JStr ''rec1''),
      [lookup_call example_platform (cfg ''app1'' ''key1'' True) ''leads'' ''placeId'' ''p1'',
       patch_call example_platform (cfg ''app1'' ''key1'' True) ''leads'' ''rec1''
         (JObj [(''placeId'', JStr ''p1'')])])
   \<and> upsertByKey
       (scripted
          [Inr \<lparr>status = 200, ok = True, res_text = Inl (),
                res_json = Inr (JObj [(''records'', JArr [])])\<rparr>]
          (Inr \<lparr>status = 200, ok = True, res_text = Inl (),
                res_json = Inr (JObj [(''records'', JArr
                  [JObj [(''id'', JStr ''rec2''), (''fields'', JObj [(''placeId'', JStr ''p2'')])]])])\<rparr>))
       example_platform (cfg ''app1'' ''key1'' True) ''leads'' ''placeId''
       (JObj [(''placeId'', JStr ''p2'')]) [] =
     (Inr (JStr ''rec2''),
      [lookup_call example_platform (cfg ''app1'' ''key1'' True) ''leads'' ''placeId'' ''p2'',
       create_call example_platform (cfg ''app1'' ''key1'' True) ''leads''
         [JObj [(''fields'', JObj [(''placeId'', JStr ''p2'')])]]])"
proof (intro conjI)
  show "upsertByKey (always (Inl ())) example_platform (cfg ''app1'' ''key1'' True) ''leads''
      ''placeId'' (JObj [(''placeId'', JStr ''''), (''companyName'', JStr ''Acme'')]) [] =
     (Inl (Error ''Upsert missing placeId''), [])"
    using upsertByKey_cases [where kvs = "[(''placeId'', JStr ''''), (''companyName'', JStr ''Acme'')]"
        and keyField = "''placeId''" and keyVal = "JStr ''''" and tr = "[]"
        and fetch = "always (Inl ())" and pf = example_platform
        and c = "cfg ''app1'' ''key1'' True" and table = "''leads''"]
    by (simp add: Object_prototype_member_def)
next
  let ?look = "Inr \<lparr>status = 200, ok = True, res_text = Inl (),
                res_json = Inr (JObj [(''records'', JArr
                  [JObj [(''id'', JStr ''rec1''), (''fields'', JObj [(''placeId'', JStr ''p1'')])]])])\<rparr>
                :: unit + unit response"
  let ?patched = "\<lparr>status = 200, ok = True, res_text = Inl (),
                res_json = Inr (JObj [(''id'', JStr ''rec1''),
                                      (''fields'', JObj [(''placeId'', JStr ''p1'')])])\<rparr>
                :: unit response"
  show "upsertByKey (scripted [?look] (Inr ?patched))
       example_platform (cfg ''app1'' ''key1'' True) ''leads'' ''placeId''
       (JObj [(''placeId'', JStr ''p1'')]) [] =
     (Inr (JStr ''rec1''),
      [lookup_call example_platform (cfg ''app1'' ''key1'' True) ''leads'' ''placeId'' ''p1'',
       patch_call example_platform (cfg ''app1'' ''key1'' True) ''leads'' ''rec1''
         (JObj [(''placeId'', JStr ''p1'')])])"
    using upsertByKey_cases [where kvs = "[(''placeId'', JStr ''p1'')]"
        and keyField = "''placeId''" and keyVal = "JStr ''p1''" and tr = "[]"
        and key_text = "''p1''" and id_text = "''rec1''"
        and fetch = "scripted [?look] (Inr ?patched)" and pf = example_platform
        and c = "cfg ''app1'' ''key1'' True" and table = "''leads''"
        and existing = "JObj [(''id'', JStr ''rec1''), (''fields'', JObj [(''placeId'', JStr ''p1'')])]"
        and others = "[]" and res = ?patched
        and json = "JObj [(''id'', JStr ''rec1''), (''fields'', JObj [(''placeId'', JStr ''p1'')])]"
        and rid = "JStr ''rec1''"]
    by (simp add: scripted_def served_def or_else_def read_prop_def lookup_call_def patch_call_def
        Object_prototype_member_def)
next
  let ?look = "Inr \<lparr>status = 200, ok = True, res_text = Inl (),
                res_json = Inr (JObj [(''records'', JArr [])])\<rparr> :: unit + unit response"
  let ?created = "\<lparr>status = 200, ok = True, res_text = Inl (),
                res_json = Inr (JObj [(''records'', JArr
                  [JObj [(''id'', JStr ''rec2''), (''fields'', JObj [(''placeId'', JStr ''p2'')])]])])\<rparr>
                :: unit response"
  show "upsertByKey (scripted [?look] (Inr ?created))
       example_platform (cfg ''app1'' ''key1'' True) ''leads'' ''placeId''
       (JObj [(''placeId'', JStr ''p2'')]) [] =
     (Inr (JStr ''rec2''),
      [lookup_call example_platform (cfg ''app1'' ''key1'' True) ''leads'' ''placeId'' ''p2'',
       create_call example_platform (cfg ''app1'' ''key1'' True) ''leads''
         [JObj [(''fields'', JObj [(''placeId'', JStr ''p2'')])]]])"
    using upsertByKey_cases [where kvs = "[(''placeId'', JStr ''p2'')]"
        and keyField = "''placeId''" and keyVal = "JStr ''p2''" and tr = "[]"
        and key_text = "''p2''"
        and fetch = "scripted [?look] (Inr ?created)" and pf = example_platform
        and c = "cfg ''app1'' ''key1'' True" and table = "''leads''"
        and res = ?created
        and json = "JObj [(''records'', JArr
                  [JObj [(''id'', JStr ''rec2''), (''fields'', JObj [(''placeId'', JStr ''p2'')])]])]"
        and recs = "JArr [JObj [(''id'', JStr ''rec2''), (''fields'', JObj [(''placeId'', JStr ''p2'')])]]"
        and first = "JObj [(''id'', JStr ''rec2''), (''fields'', JObj [(''placeId'', JStr ''p2'')])]"
        and rid = "JStr ''rec2''"]
    by (simp add: scripted_def served_def or_else_def lookup_call_def create_call_def
        index_named_def digits.simps Object_prototype_member_def)
qed

text \<open>
  C8, as the claim has it, promises a PATCH whenever a record with the key exists, and
  the identifier of that record as the result. With two records of the key and strict
  duplicates on (the default) the call rejects after the lookup, without a PATCH; and
  the result of an update is read from the PATCH response, whatever identifier the
  store writes there.
\<close>

theorem upsertByKey_counterexample:
  "upsertByKey
     (always (Inr \<lparr>status = 200, ok = True, res_text = Inl (),
        res_json = Inr (JObj [(''records'', JArr
          [JObj [(''id'', JStr ''rec1''), (''fields'', JObj [(''placeId'', JStr ''p1'')])],
           JObj [(''id'', JStr ''rec2''), (''fields'', JObj [(''placeId'', JStr ''p1'')])]])])\<rparr>))
     example_platform (cfg ''app1'' ''key1'' True) ''leads'' ''placeId''
     (JObj [(''placeId'', JStr ''p1'')]) [] =
   (Inl (Error (''Duplicate leads where placeId='' @ [CHR 0x22] @ ''p1'' @ [CHR 0x22]
           @ '' (2 found)'')),
    [lookup_call example_platform (cfg ''app1'' ''key1'' True) ''leads'' ''placeId'' ''p1''])
   \<and> upsertByKey
       (scripted
          [Inr \<lparr>status = 200, ok = True, res_text = Inl (),
                res_json = Inr (JObj [(''records'', JArr
                  [JObj [(''id'', JStr ''rec1''), (''fields'', JObj [(''placeId'', JStr ''p1'')])]])])\<rparr>]
          (Inr \<lparr>status = 200, ok = True, res_text = Inl (),
                res_json = Inr (JObj [(''id'', JStr ''rec9'')])\<rparr>))
       example_platform (cfg ''app1'' ''key1'' True) ''leads'' ''placeId''
       (JObj [(''placeId'', JStr ''p1'')]) [] =
     (Inr (JStr ''rec9''),
      [lookup_call example_platform (cfg ''app1'' ''key1'' True) ''leads'' ''placeId'' ''p1'',
       patch_call example_platform (cfg ''app1'' ''key1'' True) ''leads'' ''rec1''
         (JObj [(''placeId'', JStr ''p1'')])])"
  by (simp add: upsertByKey_def findOneByField_def findAllByField_def requestJSON_def
      requestJSON_loop.simps retries_of_def baseDelayMs_of_def options_of_def always_def
      scripted_def or_else_def lookup_call_def patch_call_def cfg_def Number_toString_def
      digits.simps index_named_def quote_def Let_def)

end
